theory Spec2Isabelle
  imports Complex_Main
begin

section \<open>Tensors and the tensor operators used by networks.py\<close>

text \<open>
  Scalars are modelled as real numbers. A rank-2 tensor (batch x features) is the list of
  its rows; a rank-3 tensor (time x batch x features, or samples x batch x features) is a
  list of rank-2 tensors. A tensor is meant to be rectangular (all rows of one length);
  a tensor without rows carries no width. Every failure the operators raise on the
  arguments networks.py hands them is a value of \<open>error\<close>.
\<close>

type_synonym tensor = "real list list"

datatype error = RuntimeError | IndexError | ValueError | AttributeError

text \<open>Sequencing of fallible computations: the first error raised is the result.\<close>

definition ebind :: "error + 'a \<Rightarrow> ('a \<Rightarrow> error + 'b) \<Rightarrow> error + 'b" where
  "ebind x f = (case x of Inl e \<Rightarrow> Inl e | Inr v \<Rightarrow> f v)"

fun collect :: "(error + 'a) list \<Rightarrow> error + 'a list" where
  "collect [] = Inr []"
| "collect (x # xs) = ebind x (\<lambda>v. ebind (collect xs) (\<lambda>vs. Inr (v # vs)))"

text \<open>The random generator is the sequence of standard-normal draws it will hand out.\<close>

type_synonym rng = "nat \<Rightarrow> real"

definition ncols :: "tensor \<Rightarrow> nat" where
  "ncols x = (case x of [] \<Rightarrow> 0 | r # _ \<Rightarrow> length r)"

definition tmap :: "(real \<Rightarrow> real) \<Rightarrow> tensor \<Rightarrow> tensor" where
  "tmap f x = map (map f) x"

text \<open>
  \<open>F.softplus\<close> with its defaults \<open>beta = 1\<close>, \<open>threshold = 20\<close>: above the
  threshold the operator is the identity.
\<close>

definition softplus :: "real \<Rightarrow> real" where
  "softplus x = (if x > 20 then x else ln (1 + exp x))"

text \<open>
  Element-wise binary operators broadcast: along each of the two axes the sizes are equal
  or one of them is 1; anything else raises.
\<close>

definition bcast_row :: "(real \<Rightarrow> real \<Rightarrow> real) \<Rightarrow> real list \<Rightarrow> real list \<Rightarrow> error + real list" where
  "bcast_row f a b =
     (if length a = length b then Inr (map2 f a b)
      else if length b = 1 then Inr (map (\<lambda>x. f x (hd b)) a)
      else if length a = 1 then Inr (map (\<lambda>y. f (hd a) y) b)
      else Inl RuntimeError)"

definition bcast :: "(real \<Rightarrow> real \<Rightarrow> real) \<Rightarrow> tensor \<Rightarrow> tensor \<Rightarrow> error + tensor" where
  "bcast f a b =
     (if length a = length b then collect (map2 (bcast_row f) a b)
      else if length b = 1 then collect (map (\<lambda>r. bcast_row f r (hd b)) a)
      else if length a = 1 then collect (map (\<lambda>r. bcast_row f (hd a) r) b)
      else Inl RuntimeError)"

definition tmul :: "tensor \<Rightarrow> tensor \<Rightarrow> error + tensor" where
  "tmul a b = bcast (\<lambda>x y. x * y) a b"

definition tadd :: "tensor \<Rightarrow> tensor \<Rightarrow> error + tensor" where
  "tadd a b = bcast (\<lambda>x y. x + y) a b"

text \<open>\<open>torch.cat([a, b], dim=1)\<close>: the batch sizes must agree.\<close>

definition cat1 :: "tensor \<Rightarrow> tensor \<Rightarrow> error + tensor" where
  "cat1 a b = (if length a = length b then Inr (map2 (\<lambda>r s. r @ s) a b) else Inl RuntimeError)"

text \<open>
  \<open>x, y = torch.chunk(t, 2, dim=1)\<close>: chunks of \<open>ceil(width / 2)\<close> columns. A tensor
  of width 1 gives a single chunk, and unpacking it into two names raises.
\<close>

definition chunk2 :: "tensor \<Rightarrow> error + tensor \<times> tensor" where
  "chunk2 x =
     (let h = (ncols x + 1) div 2
      in if ncols x = 1 then Inl ValueError else Inr (map (take h) x, map (drop h) x))"

text \<open>\<open>torch.stack(ts, dim=0)\<close> raises on an empty list and on tensors of different shapes.\<close>

definition stack :: "tensor list \<Rightarrow> error + tensor list" where
  "stack ts =
     (case ts of [] \<Rightarrow> Inl RuntimeError
      | x # _ \<Rightarrow> if \<forall>y \<in> set ts. map length y = map length x then Inr ts else Inl RuntimeError)"

text \<open>Indexing a tensor along its first axis; a negative index counts from the end.\<close>

definition index0 :: "'a list \<Rightarrow> int \<Rightarrow> error + 'a" where
  "index0 xs i =
     (let n = int (length xs); j = (if i < 0 then i + n else i)
      in if 0 \<le> j \<and> j < n then Inr (xs ! nat j) else Inl IndexError)"

text \<open>
  \<open>torch.randn_like(x)\<close>: a tensor of the shape of \<open>x\<close>, filled row by row with the next
  draws of the generator, which is left advanced by that many draws.
\<close>

fun randn_rows :: "nat list \<Rightarrow> rng \<Rightarrow> tensor \<times> rng" where
  "randn_rows [] g = ([], g)"
| "randn_rows (n # ns) g =
     (let (rest, g') = randn_rows ns (\<lambda>k. g (k + n)) in (map g [0..<n] # rest, g'))"

definition randn_like :: "tensor \<Rightarrow> rng \<Rightarrow> tensor \<times> rng" where
  "randn_like x g = randn_rows (map length x) g"

section \<open>TransitionModel\<close>

text \<open>
  The modules built by the constructor (\<open>nn.Linear\<close>, \<open>nn.GRUCell\<close>) and the activation
  function looked up in \<open>torch.nn.functional\<close> are PyTorch objects: they are fields of the
  model, a module being a function that may raise on its argument.
\<close>

type_synonym module = "tensor \<Rightarrow> error + tensor"

record TransitionModel =
  act_fn :: "tensor \<Rightarrow> tensor"
  min_std_dev :: real
  fc_embed_state_action :: module
  rnn :: "tensor \<Rightarrow> tensor \<Rightarrow> error + tensor"
  fc_embed_belief_prior :: module
  fc_state_prior :: module
  fc_embed_belief_posterior :: module
  fc_state_posterior :: module

text \<open>The seven working lists of \<open>forward\<close>.\<close>

record hidden_lists =
  beliefs :: "tensor list"
  prior_states :: "tensor list"
  prior_means :: "tensor list"
  prior_std_devs :: "tensor list"
  posterior_states :: "tensor list"
  posterior_means :: "tensor list"
  posterior_std_devs :: "tensor list"

text \<open>Lines 56-57: the state fed into the recurrence at loop index \<open>t\<close>.\<close>

definition select_state ::
  "tensor list option \<Rightarrow> tensor list option \<Rightarrow> nat \<Rightarrow> hidden_lists \<Rightarrow> error + tensor" where
  "select_state observations nonterminals t w =
     (let state = (if observations = None then prior_states w ! t else posterior_states w ! t)
      in case nonterminals of
           None \<Rightarrow> Inr state
         | Some nts \<Rightarrow>
             if t = 0 then Inr state
             else ebind (index0 nts (int t - 1)) (\<lambda>n. tmul state n))"

text \<open>Lines 59-60: the deterministic belief.\<close>

definition belief_step ::
  "TransitionModel \<Rightarrow> tensor list \<Rightarrow> nat \<Rightarrow> tensor \<Rightarrow> hidden_lists \<Rightarrow> error + hidden_lists" where
  "belief_step m actions t state w =
     ebind (index0 actions (int t)) (\<lambda>a.
     ebind (cat1 state a) (\<lambda>c.
     ebind (fc_embed_state_action m c) (\<lambda>h.
     ebind (rnn m (act_fn m h) (beliefs w ! t)) (\<lambda>b.
     Inr (w\<lparr>beliefs := (beliefs w)[t + 1 := b]\<rparr>)))))"

text \<open>Lines 63-66: the state prior.\<close>

definition prior_step ::
  "TransitionModel \<Rightarrow> nat \<Rightarrow> hidden_lists \<times> rng \<Rightarrow> error + hidden_lists \<times> rng" where
  "prior_step m t wg =
     (case wg of (w, g) \<Rightarrow>
     ebind (fc_embed_belief_prior m (beliefs w ! (t + 1))) (\<lambda>h.
     ebind (fc_state_prior m (act_fn m h)) (\<lambda>out.
     ebind (chunk2 out) (\<lambda>(mean, raw).
     let w1 = w\<lparr>prior_means := (prior_means w)[t + 1 := mean]\<rparr>;
         w2 = w1\<lparr>prior_std_devs :=
                (prior_std_devs w1)[t + 1 := tmap (\<lambda>x. softplus x + min_std_dev m) raw]\<rparr>;
         (eps, g') = randn_like (prior_means w2 ! (t + 1)) g
     in ebind (tmul (prior_std_devs w2 ! (t + 1)) eps) (\<lambda>se.
        ebind (tadd (prior_means w2 ! (t + 1)) se) (\<lambda>s.
        Inr (w2\<lparr>prior_states := (prior_states w2)[t + 1 := s]\<rparr>, g')))))))"

text \<open>Lines 68-74: the state posterior, with \<open>t_ = t - 1\<close> and the observation \<open>t_ + 1\<close>.\<close>

definition posterior_step ::
  "TransitionModel \<Rightarrow> tensor list \<Rightarrow> nat \<Rightarrow> hidden_lists \<times> rng \<Rightarrow> error + hidden_lists \<times> rng" where
  "posterior_step m obs t wg =
     (case wg of (w, g) \<Rightarrow>
     let t' = int t - 1 in
     ebind (index0 obs (t' + 1)) (\<lambda>ob.
     ebind (cat1 (beliefs w ! (t + 1)) ob) (\<lambda>c.
     ebind (fc_embed_belief_posterior m c) (\<lambda>h.
     ebind (fc_state_posterior m (act_fn m h)) (\<lambda>out.
     ebind (chunk2 out) (\<lambda>(mean, raw).
     let w1 = w\<lparr>posterior_means := (posterior_means w)[t + 1 := mean]\<rparr>;
         w2 = w1\<lparr>posterior_std_devs :=
                (posterior_std_devs w1)[t + 1 := tmap (\<lambda>x. softplus x + min_std_dev m) raw]\<rparr>;
         (eps, g') = randn_like (posterior_means w2 ! (t + 1)) g
     in ebind (tmul (posterior_std_devs w2 ! (t + 1)) eps) (\<lambda>se.
        ebind (tadd (posterior_means w2 ! (t + 1)) se) (\<lambda>s.
        Inr (w2\<lparr>posterior_states := (posterior_states w2)[t + 1 := s]\<rparr>, g')))))))))"

text \<open>Lines 56-74: the body of the time loop at index \<open>t\<close>.\<close>

definition forward_step ::
  "TransitionModel \<Rightarrow> tensor list \<Rightarrow> tensor list option \<Rightarrow> tensor list option \<Rightarrow> nat
     \<Rightarrow> hidden_lists \<times> rng \<Rightarrow> error + hidden_lists \<times> rng" where
  "forward_step m actions observations nonterminals t wg =
     (case wg of (w, g) \<Rightarrow>
     ebind (select_state observations nonterminals t w) (\<lambda>state.
     ebind (belief_step m actions t state w) (\<lambda>w1.
     ebind (prior_step m t (w1, g)) (\<lambda>wg2.
     case observations of
       None \<Rightarrow> Inr wg2
     | Some obs \<Rightarrow> posterior_step m obs t wg2))))"

text \<open>Line 55: \<open>for t in range(T - 1)\<close>, entered at index \<open>t\<close>.\<close>

function forward_loop ::
  "TransitionModel \<Rightarrow> tensor list \<Rightarrow> tensor list option \<Rightarrow> tensor list option \<Rightarrow> nat \<Rightarrow> nat
     \<Rightarrow> hidden_lists \<times> rng \<Rightarrow> error + hidden_lists \<times> rng" where
  "forward_loop m actions observations nonterminals T t wg =
     (if t < T - 1
      then ebind (forward_step m actions observations nonterminals t wg)
             (\<lambda>wg'. forward_loop m actions observations nonterminals T (t + 1) wg')
      else Inr wg)"
  by pat_completeness auto
termination
  by (relation "measure (\<lambda>(m, actions, observations, nonterminals, T, t, wg). T - 1 - t)") auto

declare forward_loop.simps [simp del]

text \<open>Lines 51-53: the placeholder lists, with index 0 set to the given belief and state.\<close>

definition init_lists :: "nat \<Rightarrow> tensor \<Rightarrow> tensor \<Rightarrow> hidden_lists" where
  "init_lists T prev_state prev_belief =
     \<lparr>beliefs = (replicate T [])[0 := prev_belief],
      prior_states = (replicate T [])[0 := prev_state],
      prior_means = replicate T [],
      prior_std_devs = replicate T [],
      posterior_states = (replicate T [])[0 := prev_state],
      posterior_means = replicate T [],
      posterior_std_devs = replicate T []\<rparr>"

text \<open>Lines 77-80: the stacked result, a list of four or of seven rank-3 tensors.\<close>

definition stack_hidden :: "tensor list option \<Rightarrow> hidden_lists \<Rightarrow> error + tensor list list" where
  "stack_hidden observations w =
     ebind (stack (drop 1 (beliefs w))) (\<lambda>b.
     ebind (stack (drop 1 (prior_states w))) (\<lambda>ps.
     ebind (stack (drop 1 (prior_means w))) (\<lambda>pm.
     ebind (stack (drop 1 (prior_std_devs w))) (\<lambda>pd.
     let hidden = [b, ps, pm, pd] in
     case observations of
       None \<Rightarrow> Inr hidden
     | Some obs \<Rightarrow>
         ebind (stack (drop 1 (posterior_states w))) (\<lambda>qs.
         ebind (stack (drop 1 (posterior_means w))) (\<lambda>qm.
         ebind (stack (drop 1 (posterior_std_devs w))) (\<lambda>qd.
         Inr (hidden @ [qs, qm, qd]))))))))"

definition forward ::
  "TransitionModel \<Rightarrow> tensor \<Rightarrow> tensor list \<Rightarrow> tensor \<Rightarrow> tensor list option \<Rightarrow> tensor list option
     \<Rightarrow> rng \<Rightarrow> error + tensor list list \<times> rng" where
  "forward m prev_state actions prev_belief observations nonterminals g =
     (let T = length actions + 1
      in ebind (forward_loop m actions observations nonterminals T 0
                  (init_lists T prev_state prev_belief, g))
           (\<lambda>(w, g'). ebind (stack_hidden observations w) (\<lambda>hidden. Inr (hidden, g'))))"

definition spec_belief :: "TransitionModel \<Rightarrow> tensor \<Rightarrow> tensor \<Rightarrow> tensor \<Rightarrow> error + tensor" where
  "spec_belief m state_used action belief_prev =
     ebind (cat1 state_used action) (\<lambda>c.
     ebind (fc_embed_state_action m c) (\<lambda>h.
     rnn m (act_fn m h) belief_prev))"

definition spec_gauss :: "real \<Rightarrow> tensor \<Rightarrow> rng \<Rightarrow> error + (tensor \<times> tensor \<times> tensor) \<times> rng" where
  "spec_gauss lo out g =
     ebind (chunk2 out) (\<lambda>(mean, raw_std).
     let std = tmap (\<lambda>x. softplus x + lo) raw_std;
         (noise, g') = randn_like mean g
     in ebind (tmul std noise) (\<lambda>sn.
        ebind (tadd mean sn) (\<lambda>state. Inr ((state, mean, std), g'))))"

definition spec_prior :: "TransitionModel \<Rightarrow> tensor \<Rightarrow> rng \<Rightarrow> error + (tensor \<times> tensor \<times> tensor) \<times> rng" where
  "spec_prior m belief g =
     ebind (fc_embed_belief_prior m belief) (\<lambda>h.
     ebind (fc_state_prior m (act_fn m h)) (\<lambda>out. spec_gauss (min_std_dev m) out g))"

definition spec_posterior ::
  "TransitionModel \<Rightarrow> tensor \<Rightarrow> tensor \<Rightarrow> rng \<Rightarrow> error + (tensor \<times> tensor \<times> tensor) \<times> rng" where
  "spec_posterior m belief embedding g =
     ebind (cat1 belief embedding) (\<lambda>c.
     ebind (fc_embed_belief_posterior m c) (\<lambda>h.
     ebind (fc_state_posterior m (act_fn m h)) (\<lambda>out. spec_gauss (min_std_dev m) out g)))"

definition lens :: "nat \<Rightarrow> hidden_lists \<Rightarrow> bool" where
  "lens T w \<longleftrightarrow>
     length (beliefs w) = T \<and> length (prior_states w) = T \<and> length (prior_means w) = T \<and>
     length (prior_std_devs w) = T \<and> length (posterior_states w) = T \<and>
     length (posterior_means w) = T \<and> length (posterior_std_devs w) = T"

definition same_upto :: "nat \<Rightarrow> hidden_lists \<Rightarrow> hidden_lists \<Rightarrow> bool" where
  "same_upto k w w' \<longleftrightarrow>
     (\<forall>j\<le>k. beliefs w' ! j = beliefs w ! j \<and> prior_states w' ! j = prior_states w ! j \<and>
        prior_means w' ! j = prior_means w ! j \<and> prior_std_devs w' ! j = prior_std_devs w ! j \<and>
        posterior_states w' ! j = posterior_states w ! j \<and>
        posterior_means w' ! j = posterior_means w ! j \<and>
        posterior_std_devs w' ! j = posterior_std_devs w ! j)"

definition step_rel ::
  "TransitionModel \<Rightarrow> tensor list \<Rightarrow> tensor list option \<Rightarrow> tensor list option \<Rightarrow> rng
     \<Rightarrow> hidden_lists \<Rightarrow> nat \<Rightarrow> bool" where
  "step_rel m actions observations nonterminals g w i \<longleftrightarrow>
     i < length actions \<and>
     (\<exists>st. select_state observations nonterminals i w = Inr st \<and>
        spec_belief m st (actions ! i) (beliefs w ! i) = Inr (beliefs w ! (i + 1))) \<and>
     (\<exists>k g'. spec_prior m (beliefs w ! (i + 1)) (\<lambda>n. g (n + k)) =
        Inr ((prior_states w ! (i + 1), prior_means w ! (i + 1), prior_std_devs w ! (i + 1)), g')) \<and>
     (\<forall>obs. observations = Some obs \<longrightarrow> i < length obs \<and>
        (\<exists>k g'. spec_posterior m (beliefs w ! (i + 1)) (obs ! i) (\<lambda>n. g (n + k)) =
           Inr ((posterior_states w ! (i + 1), posterior_means w ! (i + 1),
                 posterior_std_devs w ! (i + 1)), g')))"

definition state_used :: "tensor list \<Rightarrow> tensor list option \<Rightarrow> nat \<Rightarrow> error + tensor" where
  "state_used states nonterminals t =
     (case nonterminals of
        None \<Rightarrow> Inr (states ! t)
      | Some nts \<Rightarrow>
          if 0 < t then ebind (index0 nts (int t - 1)) (\<lambda>n. tmul (states ! t) n)
          else Inr (states ! t))"

definition all_zero :: "tensor \<Rightarrow> bool" where
  "all_zero x \<longleftrightarrow> (\<forall>row\<in>set x. \<forall>v\<in>set row. v = 0)"

text \<open>A small concrete network: all weights one, no bias, identity activation.\<close>

definition toy_model :: TransitionModel where
  "toy_model =
     \<lparr>act_fn = (\<lambda>x. x),
      min_std_dev = 1 / 10,
      fc_embed_state_action = (\<lambda>x. Inr (map (\<lambda>r. [sum_list r]) x)),
      rnn = (\<lambda>x h. Inr (map2 (map2 (\<lambda>a b. a + b)) x h)),
      fc_embed_belief_prior = (\<lambda>x. Inr x),
      fc_state_prior = (\<lambda>x. Inr (map (\<lambda>r. [sum_list r, 0]) x)),
      fc_embed_belief_posterior = (\<lambda>x. Inr (map (\<lambda>r. [sum_list r]) x)),
      fc_state_posterior = (\<lambda>x. Inr (map (\<lambda>r. [sum_list r, 0]) x))\<rparr>"

text \<open>A tensor of \<open>b\<close> rows of \<open>c\<close> columns.\<close>

definition shaped :: "nat \<Rightarrow> nat \<Rightarrow> tensor \<Rightarrow> bool" where
  "shaped b c x \<longleftrightarrow> map length x = replicate b c"

text \<open>A module that takes \<open>b x c\<close> tensors to \<open>b x c'\<close> tensors.\<close>

definition module_shape :: "module \<Rightarrow> nat \<Rightarrow> nat \<Rightarrow> nat \<Rightarrow> bool" where
  "module_shape f b c c' \<longleftrightarrow> (\<forall>x. shaped b c x \<longrightarrow> (\<exists>y. f x = Inr y \<and> shaped b c' y))"

text \<open>
  Conformable arguments of \<open>forward\<close>, for batch size \<open>B\<close>, state size \<open>S\<close>, action size
  \<open>A\<close>, belief size \<open>H\<close>, hidden size \<open>K\<close> and embedding size \<open>E\<close>: the shapes the
  constructor's layer sizes and the docstring of \<open>forward\<close> ask for, with one mask
  value per batch entry.
\<close>

definition conformable ::
  "TransitionModel \<Rightarrow> nat \<Rightarrow> nat \<Rightarrow> nat \<Rightarrow> nat \<Rightarrow> nat \<Rightarrow> nat \<Rightarrow> tensor \<Rightarrow> tensor list \<Rightarrow> tensor
     \<Rightarrow> tensor list option \<Rightarrow> tensor list option \<Rightarrow> bool" where
  "conformable m B S A H K E prev_state actions prev_belief observations nonterminals \<longleftrightarrow>
     shaped B S prev_state \<and> shaped B H prev_belief \<and> (\<forall>a\<in>set actions. shaped B A a) \<and>
     (\<forall>obs. observations = Some obs \<longrightarrow>
        length actions \<le> length obs \<and> (\<forall>ob\<in>set obs. shaped B E ob)) \<and>
     (\<forall>nts. nonterminals = Some nts \<longrightarrow>
        length actions \<le> length nts + 1 \<and> (\<forall>n\<in>set nts. shaped B 1 n)) \<and>
     (\<forall>c x. shaped B c x \<longrightarrow> shaped B c (act_fn m x)) \<and>
     module_shape (fc_embed_state_action m) B (S + A) H \<and>
     (\<forall>x h. shaped B H x \<and> shaped B H h \<longrightarrow> (\<exists>y. rnn m x h = Inr y \<and> shaped B H y)) \<and>
     module_shape (fc_embed_belief_prior m) B H K \<and>
     module_shape (fc_state_prior m) B K (2 * S) \<and>
     module_shape (fc_embed_belief_posterior m) B (H + E) K \<and>
     module_shape (fc_state_posterior m) B K (2 * S)"

definition shapes_upto ::
  "nat \<Rightarrow> nat \<Rightarrow> nat \<Rightarrow> bool \<Rightarrow> nat \<Rightarrow> hidden_lists \<Rightarrow> bool" where
  "shapes_upto B S H post t w \<longleftrightarrow>
     (\<forall>j\<le>t. shaped B H (beliefs w ! j) \<and> shaped B S (prior_states w ! j) \<and>
        (post \<longrightarrow> shaped B S (posterior_states w ! j))) \<and>
     (\<forall>j. 1 \<le> j \<and> j \<le> t \<longrightarrow>
        shaped B S (prior_means w ! j) \<and> shaped B S (prior_std_devs w ! j) \<and>
        (post \<longrightarrow> shaped B S (posterior_means w ! j) \<and> shaped B S (posterior_std_devs w ! j)))"

section \<open>Distributions\<close>

text \<open>
  The classes of \<open>torch.distributions\<close> that \<open>ActorModel\<close> composes, over rank-2 parameters
  (batch x features). Argument validation is left out: it only turns some calls into
  errors. A log-probability is given flattened, row by row; after one reinterpreted batch
  dimension it is the vector with one entry per batch element.
\<close>

datatype transform = TanhTransform

datatype distribution =
    Normal tensor tensor
  | TransformedDistribution distribution "transform list"
  | Independent distribution nat

fun transform_call :: "transform \<Rightarrow> real \<Rightarrow> real" where
  "transform_call TanhTransform x = tanh x"

fun transform_inv :: "transform \<Rightarrow> real \<Rightarrow> real" where
  "transform_inv TanhTransform y = artanh y"

fun log_abs_det_jacobian :: "transform \<Rightarrow> real \<Rightarrow> real \<Rightarrow> real" where
  "log_abs_det_jacobian TanhTransform x y = 2 * (ln 2 - x - softplus (- 2 * x))"

text \<open>\<open>Normal(loc, scale)\<close> broadcasts its two parameters against each other.\<close>

definition Normal_init :: "tensor \<Rightarrow> tensor \<Rightarrow> error + distribution" where
  "Normal_init loc scale =
     ebind (bcast (\<lambda>l s. l) loc scale) (\<lambda>l.
     ebind (bcast (\<lambda>l s. s) loc scale) (\<lambda>s. Inr (Normal l s)))"

text \<open>The number of rightmost dimensions a log-probability is summed over.\<close>

fun event_ndims :: "distribution \<Rightarrow> nat" where
  "event_ndims (Normal loc scale) = 0"
| "event_ndims (TransformedDistribution d ts) = event_ndims d"
| "event_ndims (Independent d n) = n + event_ndims d"

text \<open>\<open>Independent(d, n)\<close> raises when \<open>n\<close> exceeds the batch dimensions of \<open>d\<close>.\<close>

definition Independent_init :: "distribution \<Rightarrow> nat \<Rightarrow> error + distribution" where
  "Independent_init d n = (if n + event_ndims d \<le> 2 then Inr (Independent d n) else Inl ValueError)"

text \<open>
  \<open>rsample()\<close>: a reparameterized draw. \<open>Normal\<close> returns \<open>loc + eps * scale\<close> for fresh
  standard-normal noise \<open>eps\<close>; a transformed distribution applies its transforms in
  order; \<open>Independent\<close> samples its base distribution.
\<close>

fun rsample :: "distribution \<Rightarrow> rng \<Rightarrow> error + tensor \<times> rng" where
  "rsample (Normal loc scale) g =
     (let (eps, g') = randn_like loc g
      in ebind (tmul eps scale) (\<lambda>es. ebind (tadd loc es) (\<lambda>x. Inr (x, g'))))"
| "rsample (TransformedDistribution d ts) g =
     ebind (rsample d g) (\<lambda>(x, g'). Inr (fold (\<lambda>t. tmap (transform_call t)) ts x, g'))"
| "rsample (Independent d n) g = rsample d g"

text \<open>
  \<open>d.expand((n, *d.batch_shape)).rsample()\<close>: the parameters are repeated along a new
  leading axis of size \<open>n\<close> and the noise is drawn in row-major order, so each slice
  along that axis is an \<open>rsample\<close> of \<open>d\<close> from the generator as the slices before left it.
\<close>

fun rsample_n :: "distribution \<Rightarrow> nat \<Rightarrow> rng \<Rightarrow> error + tensor list \<times> rng" where
  "rsample_n d 0 g = Inr ([], g)"
| "rsample_n d (Suc n) g =
     ebind (rsample d g) (\<lambda>(x, g').
     ebind (rsample_n d n g') (\<lambda>(xs, g''). Inr (x # xs, g'')))"

text \<open>
  The loop of \<open>TransformedDistribution.log_prob\<close> on one component: through the
  transforms in reverse, \<open>x = inv(y)\<close>, the log-probability loses \<open>log|dy/dx|\<close>, and
  \<open>y\<close> becomes \<open>x\<close>.
\<close>

definition invert :: "transform list \<Rightarrow> real \<Rightarrow> real \<times> real" where
  "invert ts value =
     foldl (\<lambda>(y, lp) t. let x = transform_inv t y in (x, lp - log_abs_det_jacobian t x y))
       (value, 0) (rev ts)"

text \<open>The log-density of each component, before the event dimensions are summed.\<close>

fun log_prob_elem :: "distribution \<Rightarrow> tensor \<Rightarrow> error + tensor" where
  "log_prob_elem (Normal loc scale) value =
     ebind (bcast (\<lambda>v l. v - l) value loc) (\<lambda>d.
     bcast (\<lambda>d s. - (d ^ 2) / (2 * s ^ 2) - ln s - ln (sqrt (2 * pi))) d scale)"
| "log_prob_elem (TransformedDistribution d ts) value =
     ebind (log_prob_elem d (tmap (\<lambda>y. fst (invert ts y)) value)) (\<lambda>base.
     tadd (tmap (\<lambda>y. snd (invert ts y)) value) base)"
| "log_prob_elem (Independent d n) value = log_prob_elem d value"

definition sum_rightmost :: "nat \<Rightarrow> tensor \<Rightarrow> error + real list" where
  "sum_rightmost k x =
     (if k = 0 then Inr (concat x)
      else if k = 1 then Inr (map sum_list x)
      else if k = 2 then Inr [sum_list (map sum_list x)]
      else Inl ValueError)"

definition log_prob :: "distribution \<Rightarrow> tensor \<Rightarrow> error + real list" where
  "log_prob d value = ebind (log_prob_elem d value) (sum_rightmost (event_ndims d))"

section \<open>SampleDist\<close>

record SampleDist =
  sd_dist :: distribution
  sd_samples :: nat

text \<open>\<open>SampleDist(dist, samples=100)\<close>.\<close>

definition SampleDist_init :: "distribution \<Rightarrow> nat option \<Rightarrow> SampleDist" where
  "SampleDist_init d n = \<lparr>sd_dist = d, sd_samples = (case n of None \<Rightarrow> 100 | Some k \<Rightarrow> k)\<rparr>"

definition SampleDist_name :: "SampleDist \<Rightarrow> string" where
  "SampleDist_name sd = ''SampleDist''"

text \<open>
  The attributes that class \<open>SampleDist\<close> defines. Every other attribute name reaches
  \<open>__getattr__\<close>, which looks it up in the wrapped distribution.
\<close>

definition SampleDist_attributes :: "string list" where
  "SampleDist_attributes =
     [''_dist'', ''_samples'', ''__init__'', ''name'', ''__getattr__'', ''mean'', ''mode'',
      ''entropy'']"

definition forwarded :: "string \<Rightarrow> bool" where
  "forwarded attr \<longleftrightarrow> attr \<notin> set SampleDist_attributes"

definition SampleDist_rsample :: "SampleDist \<Rightarrow> rng \<Rightarrow> error + tensor \<times> rng" where
  "SampleDist_rsample sd g =
     (if forwarded ''rsample'' then rsample (sd_dist sd) g else Inl AttributeError)"

definition SampleDist_log_prob :: "SampleDist \<Rightarrow> tensor \<Rightarrow> error + real list" where
  "SampleDist_log_prob sd value =
     (if forwarded ''log_prob'' then log_prob (sd_dist sd) value else Inl AttributeError)"

text \<open>\<open>torch.mean(x, 0)\<close> of a rank-3 tensor: the sum of its slices, divided by their number.\<close>

fun sum0 :: "tensor list \<Rightarrow> tensor" where
  "sum0 [] = []"
| "sum0 [x] = x"
| "sum0 (x # xs) = map2 (map2 (\<lambda>a b. a + b)) x (sum0 xs)"

definition mean0 :: "tensor list \<Rightarrow> tensor" where
  "mean0 xs = tmap (\<lambda>v. v / real (length xs)) (sum0 xs)"

definition SampleDist_mean :: "SampleDist \<Rightarrow> rng \<Rightarrow> error + tensor \<times> rng" where
  "SampleDist_mean sd g =
     ebind (rsample_n (sd_dist sd) (sd_samples sd) g) (\<lambda>(sample, g'). Inr (mean0 sample, g'))"





section \<open>ActorModel\<close>

record ActorModel =
  actor_act_fn :: "tensor \<Rightarrow> tensor"
  fc1 :: module
  fc2 :: module
  fc3 :: module
  fc4 :: module
  fc5 :: module
  min_std :: real
  init_std :: real
  mean_scale :: real

text \<open>Lines 162-166: the five-layer network.\<close>

definition actor_hidden :: "ActorModel \<Rightarrow> tensor \<Rightarrow> tensor \<Rightarrow> error + tensor" where
  "actor_hidden m belief state =
     ebind (cat1 belief state) (\<lambda>x.
     ebind (fc1 m x) (\<lambda>h1.
     ebind (fc2 m (actor_act_fn m h1)) (\<lambda>h2.
     ebind (fc3 m (actor_act_fn m h2)) (\<lambda>h3.
     ebind (fc4 m (actor_act_fn m h3)) (\<lambda>h4.
     fc5 m (actor_act_fn m h4))))))"

text \<open>Lines 161 and 167-174: the action distribution.\<close>

definition action_dist :: "ActorModel \<Rightarrow> tensor \<Rightarrow> tensor \<Rightarrow> error + SampleDist" where
  "action_dist m belief state =
     (let raw_init_std = ln (exp (init_std m) - 1) in
      ebind (actor_hidden m belief state) (\<lambda>hidden.
      ebind (chunk2 hidden) (\<lambda>(mean, std).
      let mean = tmap (\<lambda>x. mean_scale m * tanh (x / mean_scale m)) mean;
          std = tmap (\<lambda>x. softplus (x + raw_init_std) + min_std m) std
      in ebind (Normal_init mean std) (\<lambda>d.
         let d = TransformedDistribution d [TanhTransform]
         in ebind (Independent_init d 1) (\<lambda>d. Inr (SampleDist_init d None))))))"

text \<open>Lines 160-186, with the generator passed in and returned.\<close>

definition ActorModel_forward ::
  "ActorModel \<Rightarrow> tensor \<Rightarrow> tensor \<Rightarrow> bool \<Rightarrow> bool \<Rightarrow> rng
     \<Rightarrow> error + (tensor \<times> real list option) \<times> rng" where
  "ActorModel_forward m belief state deterministic with_logprob g =
     ebind (action_dist m belief state) (\<lambda>d.
     ebind (if deterministic then SampleDist_mean d g else SampleDist_rsample d g) (\<lambda>(action, g').
     ebind (if with_logprob then ebind (SampleDist_log_prob d action) (\<lambda>l. Inr (Some l))
            else Inr None) (\<lambda>logp_pi.
     Inr ((action, logp_pi), g'))))"

text \<open>Every component of a tensor satisfies \<open>P\<close>.\<close>

definition all_elems :: "(real \<Rightarrow> bool) \<Rightarrow> tensor \<Rightarrow> bool" where
  "all_elems P x \<longleftrightarrow> (\<forall>row\<in>set x. \<forall>v\<in>set row. P v)"

text \<open>A small concrete actor: the last layer sums its input into the raw mean.\<close>

definition toy_actor :: ActorModel where
  "toy_actor =
     \<lparr>actor_act_fn = (\<lambda>x. x),
      fc1 = (\<lambda>x. Inr x), fc2 = (\<lambda>x. Inr x), fc3 = (\<lambda>x. Inr x), fc4 = (\<lambda>x. Inr x),
      fc5 = (\<lambda>x. Inr (map (\<lambda>r. [sum_list r, 0]) x)),
      min_std = 1 / 10000, init_std = 5, mean_scale = 5\<rparr>"

text \<open>The standard deviation \<open>toy_actor\<close> gives a zero raw output.\<close>

definition toy_std :: real where
  "toy_std = softplus (ln (exp 5 - 1)) + 1 / 10000"

text \<open>Two generators: every draw 0, and every draw 1.\<close>

definition zeros :: rng where
  "zeros = (\<lambda>n. 0)"

definition ones :: rng where
  "ones = (\<lambda>n. 1)"

text \<open>The distribution that \<open>toy_actor\<close> builds for a zero belief and state.\<close>

definition toy_dist :: distribution where
  "toy_dist = Independent (TransformedDistribution (Normal [[0]] [[toy_std]]) [TanhTransform]) 1"

text \<open>The number of generator draws that one \<open>rsample\<close> takes.\<close>

fun draws :: "distribution \<Rightarrow> nat" where
  "draws (Normal loc scale) = sum_list (map length loc)"
| "draws (TransformedDistribution d ts) = draws d"
| "draws (Independent d n) = draws d"

section \<open>Single-precision arithmetic\<close>

text \<open>
  The tensors of the program hold binary32 numbers: every operation returns its exact
  result rounded to the nearest binary32 number, ties to even. The definitions above
  compute with real numbers, which describes the program up to this rounding. Where a
  property depends on the rounding (a strict inequality can become an equality), the
  operations below say what the program computes on one component. Results beyond the
  binary32 range (infinities and NaN) are not represented, and the elementary functions
  are taken as correctly rounded.
\<close>

text \<open>Rounding to the nearest integer, ties to even.\<close>

definition rne :: "real \<Rightarrow> int" where
  "rne r =
     (let f = \<lfloor>r\<rfloor>
      in if r - of_int f < 1 / 2 then f
         else if 1 / 2 < r - of_int f then f + 1
         else if even f then f else f + 1)"

text \<open>
  The binary exponent of a positive number, not below the exponent of the smallest normal
  binary32 number; the spacing of the binary32 numbers there (24 significant bits).
\<close>

definition expo32 :: "real \<Rightarrow> int" where
  "expo32 x = max \<lfloor>log 2 x\<rfloor> (- 126)"

definition ulp32 :: "real \<Rightarrow> real" where
  "ulp32 x = 2 powr (of_int (expo32 x) - 23)"

text \<open>Rounding to binary32, which is symmetric about zero.\<close>

definition round_pos :: "real \<Rightarrow> real" where
  "round_pos x = (if x = 0 then 0 else of_int (rne (x / ulp32 x)) * ulp32 x)"

definition round32 :: "real \<Rightarrow> real" where
  "round32 x = (if x < 0 then - round_pos (- x) else round_pos x)"

text \<open>The operators of the program on binary32 numbers.\<close>

definition add32 :: "real \<Rightarrow> real \<Rightarrow> real" where
  "add32 a b = round32 (a + b)"

definition mul32 :: "real \<Rightarrow> real \<Rightarrow> real" where
  "mul32 a b = round32 (a * b)"




definition tanh32 :: "real \<Rightarrow> real" where
  "tanh32 x = round32 (tanh x)"




text \<open>
  One component of \<open>rsample\<close> of the actor's distribution: \<open>Normal.rsample\<close> returns
  \<open>loc + eps * scale\<close> and \<open>TanhTransform\<close> applies \<open>tanh\<close> to it.
\<close>

definition sample32 :: "real \<Rightarrow> real \<Rightarrow> real \<Rightarrow> real" where
  "sample32 loc scale eps = tanh32 (add32 loc (mul32 eps scale))"


section \<open>Properties of the tensor operators and of the time loop\<close>

lemma ebind_Inl [simp]: "ebind (Inl e) f = Inl e"
  by (simp add: ebind_def)

lemma ebind_Inr [simp]: "ebind (Inr v) f = f v"
  by (simp add: ebind_def)

lemma ebind_eq_Inr: "ebind x f = Inr y \<longleftrightarrow> (\<exists>v. x = Inr v \<and> f v = Inr y)"
  by (cases x) simp_all

lemma belief_step_char:
  "belief_step m actions t state w =
     ebind (index0 actions (int t)) (\<lambda>a.
     ebind (spec_belief m state a (beliefs w ! t)) (\<lambda>b.
     Inr (w\<lparr>beliefs := (beliefs w)[t + 1 := b]\<rparr>)))"
  by (simp add: belief_step_def spec_belief_def ebind_def split: sum.splits)

lemma prior_step_char:
  assumes "t + 1 < length (prior_means w)" "t + 1 < length (prior_std_devs w)"
  shows "prior_step m t (w, g) =
     ebind (spec_prior m (beliefs w ! (t + 1)) g) (\<lambda>((s, mean, std), g').
       Inr (w\<lparr>prior_means := (prior_means w)[t + 1 := mean],
               prior_std_devs := (prior_std_devs w)[t + 1 := std],
               prior_states := (prior_states w)[t + 1 := s]\<rparr>, g'))"
  using assms
  by (simp add: prior_step_def spec_prior_def spec_gauss_def ebind_def Let_def split: sum.splits prod.splits)

lemma posterior_step_char:
  assumes "t + 1 < length (posterior_means w)" "t + 1 < length (posterior_std_devs w)"
  shows "posterior_step m obs t (w, g) =
     ebind (index0 obs (int t)) (\<lambda>ob.
     ebind (spec_posterior m (beliefs w ! (t + 1)) ob g) (\<lambda>((s, mean, std), g').
       Inr (w\<lparr>posterior_means := (posterior_means w)[t + 1 := mean],
               posterior_std_devs := (posterior_std_devs w)[t + 1 := std],
               posterior_states := (posterior_states w)[t + 1 := s]\<rparr>, g')))"
  using assms
  by (simp add: posterior_step_def spec_posterior_def spec_gauss_def ebind_def Let_def split: sum.splits prod.splits)

lemma index0_nat: "index0 xs (int t) = Inr a \<longleftrightarrow> t < length xs \<and> a = xs ! t"
  by (auto simp: index0_def Let_def)

lemma index0_pred: "0 < t \<Longrightarrow> index0 xs (int t - 1) = Inr a \<longleftrightarrow> t - 1 < length xs \<and> a = xs ! (t - 1)"
  by (auto simp: index0_def Let_def nat_diff_distrib')

lemma randn_rows_rng: "snd (randn_rows ns g) = (\<lambda>k. g (k + sum_list ns))"
  by (induction ns arbitrary: g) (auto simp: split_beta Let_def algebra_simps)

lemma randn_rows_shape: "map length (fst (randn_rows ns g)) = ns"
  by (induction ns arbitrary: g) (auto simp: split_beta Let_def)

lemma spec_gauss_rng:
  "spec_gauss lo out (\<lambda>n. g (n + k)) = Inr (r, g') \<Longrightarrow> \<exists>k'. g' = (\<lambda>n. g (n + k'))"
  apply (auto simp: spec_gauss_def ebind_eq_Inr Let_def split_beta randn_like_def)
  apply (subst randn_rows_rng)
  apply (auto simp: add.assoc)
  done

lemma spec_prior_rng:
  "spec_prior m b (\<lambda>n. g (n + k)) = Inr (r, g') \<Longrightarrow> \<exists>k'. g' = (\<lambda>n. g (n + k'))"
  by (auto simp: spec_prior_def ebind_eq_Inr dest: spec_gauss_rng)

lemma spec_posterior_rng:
  "spec_posterior m b e (\<lambda>n. g (n + k)) = Inr (r, g') \<Longrightarrow> \<exists>k'. g' = (\<lambda>n. g (n + k'))"
  by (auto simp: spec_posterior_def ebind_eq_Inr dest: spec_gauss_rng)

lemma step_rel_stable:
  assumes "step_rel m actions observations nonterminals g w i" "same_upto (i + 1) w w'"
  shows "step_rel m actions observations nonterminals g w' i"
proof -
  have a: "\<And>j. j \<le> i + 1 \<Longrightarrow> beliefs w' ! j = beliefs w ! j \<and> prior_states w' ! j = prior_states w ! j \<and>
        prior_means w' ! j = prior_means w ! j \<and> prior_std_devs w' ! j = prior_std_devs w ! j \<and>
        posterior_states w' ! j = posterior_states w ! j \<and>
        posterior_means w' ! j = posterior_means w ! j \<and>
        posterior_std_devs w' ! j = posterior_std_devs w ! j"
    using assms(2) by (simp add: same_upto_def)
  have s: "select_state observations nonterminals i w' = select_state observations nonterminals i w"
    using a[of i] by (simp add: select_state_def)
  show ?thesis
    using assms(1) a[of i] a[of "i + 1"] by (simp add: step_rel_def s)
qed

lemma select_state_cong:
  "prior_states w' ! t = prior_states w ! t \<Longrightarrow> posterior_states w' ! t = posterior_states w ! t
     \<Longrightarrow> select_state observations nonterminals t w' = select_state observations nonterminals t w"
  by (simp add: select_state_def)

lemma forward_step_rel:
  assumes L: "lens T w" and t: "t + 1 < T"
    and F: "forward_step m actions observations nonterminals t (w, (\<lambda>n. g (n + k))) = Inr (w', g')"
  shows "lens T w' \<and> step_rel m actions observations nonterminals g w' t \<and>
         (\<exists>k'. g' = (\<lambda>n. g (n + k'))) \<and> same_upto t w w'"
proof -
  from F obtain st w1 wg2 where
    S: "select_state observations nonterminals t w = Inr st" and
    B: "belief_step m actions t st w = Inr w1" and
    P: "prior_step m t (w1, (\<lambda>n. g (n + k))) = Inr wg2" and
    Q: "(case observations of None \<Rightarrow> Inr wg2 | Some obs \<Rightarrow> posterior_step m obs t wg2) = Inr (w', g')"
    by (auto simp: forward_step_def ebind_eq_Inr)
  from B obtain b where
    a: "t < length actions" and
    b: "spec_belief m st (actions ! t) (beliefs w ! t) = Inr b" and
    w1: "w1 = w\<lparr>beliefs := (beliefs w)[t + 1 := b]\<rparr>"
    by (auto simp: belief_step_char ebind_eq_Inr index0_nat)
  have L1: "lens T w1" using L by (simp add: w1 lens_def)
  have b1: "beliefs w1 ! (t + 1) = b" using L t by (simp add: w1 lens_def)
  have b0: "beliefs w1 ! t = beliefs w ! t" by (simp add: w1)
  obtain w2 g2 where wg2: "wg2 = (w2, g2)" by (cases wg2)
  from P L1 t obtain s mean std where
    p0: "spec_prior m (beliefs w1 ! (t + 1)) (\<lambda>n. g (n + k)) = Inr ((s, mean, std), g2)" and
    w2: "w2 = w1\<lparr>prior_means := (prior_means w1)[t + 1 := mean],
               prior_std_devs := (prior_std_devs w1)[t + 1 := std],
               prior_states := (prior_states w1)[t + 1 := s]\<rparr>"
    by (auto simp: prior_step_char lens_def ebind_eq_Inr wg2)
  have p: "spec_prior m b (\<lambda>n. g (n + k)) = Inr ((s, mean, std), g2)"
    using p0 unfolding b1 .
  have L2: "lens T w2" using L1 by (simp add: w2 lens_def)
  from spec_prior_rng[OF p] obtain k2 where g2: "g2 = (\<lambda>n. g (n + k2))" by blast
  have R2: "i < length actions \<and>
     (\<exists>st. select_state observations nonterminals t w2 = Inr st \<and>
        spec_belief m st (actions ! t) (beliefs w2 ! t) = Inr (beliefs w2 ! (t + 1))) \<and>
     (\<exists>k g'. spec_prior m (beliefs w2 ! (t + 1)) (\<lambda>n. g (n + k)) =
        Inr ((prior_states w2 ! (t + 1), prior_means w2 ! (t + 1), prior_std_devs w2 ! (t + 1)), g'))"
    if "i = t" for i
  proof -
    have "select_state observations nonterminals t w2 = select_state observations nonterminals t w"
      by (rule select_state_cong) (simp_all add: w2 w1)
    then have "select_state observations nonterminals t w2 = Inr st" using S by simp
    moreover have "beliefs w2 ! t = beliefs w ! t" "beliefs w2 ! (t + 1) = b"
      using L t by (simp_all add: w2 w1 lens_def)
    moreover have "prior_states w2 ! (t + 1) = s" "prior_means w2 ! (t + 1) = mean"
       "prior_std_devs w2 ! (t + 1) = std"
      using L t by (simp_all add: w2 w1 lens_def)
    ultimately show ?thesis using a b p that by auto
  qed
  have U2: "same_upto t w w2" by (simp add: same_upto_def w2 w1)
  show ?thesis
  proof (cases observations)
    case None
    then have "w' = w2" "g' = g2" using Q wg2 by simp_all
    then show ?thesis using L2 R2[of t] g2 U2 None by (auto simp: step_rel_def)
  next
    case (Some obs)
    then have "posterior_step m obs t (w2, g2) = Inr (w', g')" using Q wg2 by simp
    with L2 t obtain s' mean' std' where
      o: "t < length obs" and
      q: "spec_posterior m (beliefs w2 ! (t + 1)) (obs ! t) g2 = Inr ((s', mean', std'), g')" and
      w': "w' = w2\<lparr>posterior_means := (posterior_means w2)[t + 1 := mean'],
               posterior_std_devs := (posterior_std_devs w2)[t + 1 := std'],
               posterior_states := (posterior_states w2)[t + 1 := s']\<rparr>"
      by (auto simp: posterior_step_char lens_def ebind_eq_Inr index0_nat)
    have L': "lens T w'" using L2 by (simp add: w' lens_def)
    from spec_posterior_rng[OF q[unfolded g2]] obtain k3 where g3: "g' = (\<lambda>n. g (n + k3))" by blast
    have U: "same_upto t w w'" using U2 by (simp add: same_upto_def w')
    have sel: "select_state observations nonterminals t w' = select_state observations nonterminals t w2"
      by (rule select_state_cong) (simp_all add: w')
    have e: "beliefs w' = beliefs w2" "prior_states w' = prior_states w2"
      "prior_means w' = prior_means w2" "prior_std_devs w' = prior_std_devs w2"
      by (simp_all add: w')
    have f: "posterior_states w' ! (t + 1) = s'" "posterior_means w' ! (t + 1) = mean'"
      "posterior_std_devs w' ! (t + 1) = std'"
      using L2 t by (simp_all add: w' lens_def)
    have "step_rel m actions observations nonterminals g w' t"
      unfolding step_rel_def sel e f using R2[of t] o q[unfolded g2] Some by auto
    then show ?thesis using L' g3 U by blast
  qed
qed

lemma same_upto_le: "same_upto k w w' \<Longrightarrow> j \<le> k \<Longrightarrow> same_upto j w w'"
  by (simp add: same_upto_def)

lemma same_upto_trans: "same_upto k w w1 \<Longrightarrow> same_upto k w1 w' \<Longrightarrow> same_upto k w w'"
  by (simp add: same_upto_def)

lemma same_upto_refl: "same_upto k w w"
  by (simp add: same_upto_def)

lemma forward_loop_rel:
  assumes "forward_loop m actions observations nonterminals T t (w, (\<lambda>n. g (n + k))) = Inr (w', g')"
    and "lens T w" and "\<forall>i<t. step_rel m actions observations nonterminals g w i"
  shows "lens T w' \<and> (\<forall>i<T - 1. step_rel m actions observations nonterminals g w' i) \<and>
         same_upto t w w' \<and> (\<exists>k'. g' = (\<lambda>n. g (n + k')))"
  using assms
proof (induction "T - 1 - t" arbitrary: t w k)
  case 0
  then have "\<not> t < T - 1" by simp
  with "0.prems"(1) have "w' = w" "g' = (\<lambda>n. g (n + k))"
    by (simp_all add: forward_loop.simps[of _ _ _ _ T t])
  moreover have "\<forall>i<T - 1. i < t" using \<open>\<not> t < T - 1\<close> by simp
  ultimately show ?case using "0.prems" by (auto simp: same_upto_refl)
next
  case (Suc d)
  then have lt: "t < T - 1" by simp
  with Suc.prems(1) obtain w1 g1 where
    F: "forward_step m actions observations nonterminals t (w, (\<lambda>n. g (n + k))) = Inr (w1, g1)" and
    R: "forward_loop m actions observations nonterminals T (t + 1) (w1, g1) = Inr (w', g')"
    by (auto simp: ebind_eq_Inr forward_loop.simps[of _ _ _ _ T t])
  from lt have t1: "t + 1 < T" by simp
  from forward_step_rel[OF Suc.prems(2) t1 F] obtain k1 where
    L1: "lens T w1" and S1: "step_rel m actions observations nonterminals g w1 t" and
    g1: "g1 = (\<lambda>n. g (n + k1))" and U1: "same_upto t w w1"
    by blast
  have A: "\<forall>i<t + 1. step_rel m actions observations nonterminals g w1 i"
  proof (intro allI impI)
    fix i assume "i < t + 1"
    show "step_rel m actions observations nonterminals g w1 i"
    proof (cases "i = t")
      case True
      then show ?thesis using S1 by simp
    next
      case False
      with \<open>i < t + 1\<close> have "i < t" "i + 1 \<le> t" by simp_all
      then show ?thesis
        using Suc.prems(3) same_upto_le[OF U1] step_rel_stable by blast
    qed
  qed
  have d: "d = T - 1 - (t + 1)" using Suc.hyps(2) by simp
  from Suc.hyps(1)[OF d R[unfolded g1] L1 A]
  have "lens T w'" "\<forall>i<T - 1. step_rel m actions observations nonterminals g w' i"
    "same_upto (t + 1) w1 w'" "\<exists>k'. g' = (\<lambda>n. g (n + k'))"
    by blast+
  then show ?case
    using same_upto_trans[OF U1 same_upto_le[of "t + 1" w1 w' t]] by simp
qed

lemma stack_Inr_D: "stack ts = Inr r \<Longrightarrow> r = ts \<and> ts \<noteq> []"
  by (cases ts) (auto simp: stack_def split: if_splits)

lemma lens_init: "lens T (init_lists T ps pb)"
  by (simp add: lens_def init_lists_def)

lemma init_lists_0:
  "0 < T \<Longrightarrow> beliefs (init_lists T ps pb) ! 0 = pb"
  "0 < T \<Longrightarrow> prior_states (init_lists T ps pb) ! 0 = ps"
  "0 < T \<Longrightarrow> posterior_states (init_lists T ps pb) ! 0 = ps"
  by (simp_all add: init_lists_def)

lemma stack_hidden_None:
  assumes "stack_hidden None w = Inr hidden"
  shows "hidden = [drop 1 (beliefs w), drop 1 (prior_states w), drop 1 (prior_means w),
                   drop 1 (prior_std_devs w)] \<and> drop 1 (beliefs w) \<noteq> []"
proof -
  from assms obtain b ps pm pd where
    "stack (drop 1 (beliefs w)) = Inr b" "stack (drop 1 (prior_states w)) = Inr ps"
    "stack (drop 1 (prior_means w)) = Inr pm" "stack (drop 1 (prior_std_devs w)) = Inr pd"
    "hidden = [b, ps, pm, pd]"
    by (auto simp: stack_hidden_def ebind_eq_Inr Let_def)
  then show ?thesis by (auto dest!: stack_Inr_D)
qed

lemma stack_hidden_Some:
  assumes "stack_hidden (Some obs) w = Inr hidden"
  shows "hidden = [drop 1 (beliefs w), drop 1 (prior_states w), drop 1 (prior_means w),
                   drop 1 (prior_std_devs w), drop 1 (posterior_states w),
                   drop 1 (posterior_means w), drop 1 (posterior_std_devs w)] \<and>
         drop 1 (beliefs w) \<noteq> []"
proof -
  from assms obtain b ps pm pd qs qm qd where
    "stack (drop 1 (beliefs w)) = Inr b" "stack (drop 1 (prior_states w)) = Inr ps"
    "stack (drop 1 (prior_means w)) = Inr pm" "stack (drop 1 (prior_std_devs w)) = Inr pd"
    "stack (drop 1 (posterior_states w)) = Inr qs" "stack (drop 1 (posterior_means w)) = Inr qm"
    "stack (drop 1 (posterior_std_devs w)) = Inr qd"
    "hidden = [b, ps, pm, pd, qs, qm, qd]"
    by (auto simp: stack_hidden_def ebind_eq_Inr Let_def)
  then show ?thesis by (auto dest!: stack_Inr_D)
qed

lemma forward_char:
  assumes "forward m prev_state actions prev_belief observations nonterminals g = Inr (hidden, g')"
  shows "\<exists>w. forward_loop m actions observations nonterminals (length actions + 1) 0
                (init_lists (length actions + 1) prev_state prev_belief, g) = Inr (w, g') \<and>
             lens (length actions + 1) w \<and>
             (\<forall>i<length actions. step_rel m actions observations nonterminals g w i) \<and>
             beliefs w ! 0 = prev_belief \<and> prior_states w ! 0 = prev_state \<and>
             posterior_states w ! 0 = prev_state \<and>
             stack_hidden observations w = Inr hidden"
proof -
  let ?T = "length actions + 1"
  let ?w0 = "init_lists ?T prev_state prev_belief"
  from assms obtain w where
    loop: "forward_loop m actions observations nonterminals ?T 0 (?w0, g) = Inr (w, g')" and
    st: "stack_hidden observations w = Inr hidden"
    by (auto simp: forward_def Let_def ebind_eq_Inr)
  have loop': "forward_loop m actions observations nonterminals ?T 0 (?w0, (\<lambda>n. g (n + 0))) = Inr (w, g')"
    using loop by simp
  have n: "\<forall>i<(0::nat). step_rel m actions observations nonterminals g ?w0 i" by simp
  from forward_loop_rel[OF loop' lens_init n]
  have r: "lens ?T w" "\<forall>i<?T - 1. step_rel m actions observations nonterminals g w i"
    "same_upto 0 ?w0 w"
    by blast+
  have z: "beliefs w ! 0 = beliefs ?w0 ! 0" "prior_states w ! 0 = prior_states ?w0 ! 0"
    "posterior_states w ! 0 = posterior_states ?w0 ! 0"
    using r(3) unfolding same_upto_def by simp_all
  have "beliefs w ! 0 = prev_belief" "prior_states w ! 0 = prev_state"
    "posterior_states w ! 0 = prev_state"
    unfolding z by (simp_all add: init_lists_0)
  moreover have "\<forall>i<length actions. step_rel m actions observations nonterminals g w i"
    using r(2) by simp
  ultimately show ?thesis using loop st r(1) by blast
qed

lemma collect_eq_Inr: "collect xs = Inr r \<longleftrightarrow> xs = map Inr r"
proof (induction xs arbitrary: r)
  case Nil
  then show ?case by auto
next
  case (Cons x xs)
  show ?case
  proof (cases x)
    case (Inl e)
    then show ?thesis by (cases r) auto
  next
    case (Inr v)
    then show ?thesis using Cons.IH by (cases r) (auto simp: ebind_eq_Inr)
  qed
qed

lemma bcast_rows:
  assumes "bcast f a b = Inr r" "row \<in> set r"
  shows "\<exists>ra rb. ra \<in> set a \<and> rb \<in> set b \<and> bcast_row f ra rb = Inr row"
proof -
  from assms(2) obtain i where i: "i < length r" "row = r ! i"
    by (auto simp: in_set_conv_nth)
  consider (eq) "length a = length b" | (b1) "length a \<noteq> length b" "length b = 1"
    | (a1) "length a \<noteq> length b" "length b \<noteq> 1" "length a = 1"
    using assms(1) by (auto simp: bcast_def split: if_splits)
  then show ?thesis
  proof cases
    case eq
    with assms(1) have m: "map2 (bcast_row f) a b = map Inr r"
      by (simp add: bcast_def collect_eq_Inr)
    then have l: "length r = length b" using eq
      by (metis length_map length_zip min.idem)
    have "map2 (bcast_row f) a b ! i = Inr (r ! i)" using m i by simp
    then have "bcast_row f (a ! i) (b ! i) = Inr (r ! i)" using i l eq by simp
    moreover have "b ! i \<in> set b" "a ! i \<in> set a" using i l eq by simp_all
    ultimately show ?thesis using i by blast
  next
    case b1
    with assms(1) have m: "map (\<lambda>r. bcast_row f r (hd b)) a = map Inr r"
      by (simp add: bcast_def collect_eq_Inr)
    then have l: "length r = length a" by (metis length_map)
    have "map (\<lambda>r. bcast_row f r (hd b)) a ! i = Inr (r ! i)" using m i by simp
    then have "bcast_row f (a ! i) (hd b) = Inr (r ! i)" using i l by simp
    moreover have "hd b \<in> set b" using b1 by (cases b) auto
    moreover have "a ! i \<in> set a" using i l by simp
    ultimately show ?thesis using i by blast
  next
    case a1
    with assms(1) have m: "map (\<lambda>r. bcast_row f (hd a) r) b = map Inr r"
      by (simp add: bcast_def collect_eq_Inr)
    then have l: "length r = length b" by (metis length_map)
    have "map (\<lambda>r. bcast_row f (hd a) r) b ! i = Inr (r ! i)" using m i by simp
    then have "bcast_row f (hd a) (b ! i) = Inr (r ! i)" using i l by simp
    moreover have "b ! i \<in> set b" using i l by simp
    moreover have "hd a \<in> set a" using a1 by (cases a) auto
    ultimately show ?thesis using i by blast
  qed
qed

lemma bcast_row_mult_zero:
  assumes "bcast_row (\<lambda>x y. x * y) ra rb = Inr row" "\<forall>v\<in>set rb. v = (0::real)"
  shows "\<forall>v\<in>set row. v = 0"
proof -
  have h: "length rb = 1 \<Longrightarrow> hd rb = 0" using assms(2) by (cases rb) auto
  show ?thesis
    using assms h
    by (auto simp: bcast_row_def set_zip split: if_splits)
qed

lemma tmul_zero:
  assumes "tmul a n = Inr r" "all_zero n"
  shows "all_zero r"
  unfolding all_zero_def
proof (intro ballI)
  fix row v assume "row \<in> set r" "v \<in> set row"
  from bcast_rows[OF assms(1)[unfolded tmul_def] \<open>row \<in> set r\<close>] obtain ra rb where
    rb: "rb \<in> set n" "bcast_row (\<lambda>x y. x * y) ra rb = Inr row"
    by blast
  from rb(1) assms(2) have "\<forall>v\<in>set rb. v = 0" by (simp add: all_zero_def)
  from bcast_row_mult_zero[OF rb(2) this] \<open>v \<in> set row\<close> show "v = 0" by blast
qed

lemma softplus_pos: "0 < softplus x"
proof (cases "x > 20")
  case True
  then show ?thesis by (simp add: softplus_def)
next
  case False
  have "1 < 1 + exp x" by simp
  then have "0 < ln (1 + exp x)" by (rule ln_gt_zero)
  with False show ?thesis by (simp add: softplus_def)
qed


lemma Cons_nth_drop_1: "xs \<noteq> [] \<Longrightarrow> xs = xs ! 0 # drop 1 xs"
  by (cases xs) simp_all

lemma select_state_used:
  "select_state observations nonterminals i w =
     state_used (if observations = None then prior_states w else posterior_states w) nonterminals i"
  by (cases observations; cases nonterminals) (simp_all add: select_state_def state_used_def)

lemma forward_lists:
  assumes "forward m prev_state actions prev_belief observations nonterminals g = Inr (hidden, g')"
  shows "\<exists>w. forward_loop m actions observations nonterminals (length actions + 1) 0
                (init_lists (length actions + 1) prev_state prev_belief, g) = Inr (w, g') \<and>
             lens (length actions + 1) w \<and> 1 \<le> length actions \<and>
             (\<forall>i<length actions. step_rel m actions observations nonterminals g w i) \<and>
             beliefs w = prev_belief # hidden ! 0 \<and>
             prior_states w = prev_state # hidden ! 1 \<and>
             drop 1 (prior_means w) = hidden ! 2 \<and>
             drop 1 (prior_std_devs w) = hidden ! 3 \<and>
             (observations = None \<longrightarrow> length hidden = 4) \<and>
             (observations \<noteq> None \<longrightarrow> length hidden = 7 \<and>
                posterior_states w = prev_state # hidden ! 4 \<and>
                drop 1 (posterior_means w) = hidden ! 5 \<and>
                drop 1 (posterior_std_devs w) = hidden ! 6)"
proof -
  from forward_char[OF assms] obtain w where
    loop: "forward_loop m actions observations nonterminals (length actions + 1) 0
             (init_lists (length actions + 1) prev_state prev_belief, g) = Inr (w, g')" and
    L: "lens (length actions + 1) w" and
    R: "\<forall>i<length actions. step_rel m actions observations nonterminals g w i" and
    z: "beliefs w ! 0 = prev_belief" "prior_states w ! 0 = prev_state"
       "posterior_states w ! 0 = prev_state" and
    st: "stack_hidden observations w = Inr hidden"
    by blast
  have ne: "beliefs w \<noteq> []" "prior_states w \<noteq> []" "posterior_states w \<noteq> []"
    using L by (auto simp: lens_def)
  have c: "beliefs w = prev_belief # drop 1 (beliefs w)"
    "prior_states w = prev_state # drop 1 (prior_states w)"
    "posterior_states w = prev_state # drop 1 (posterior_states w)"
    using Cons_nth_drop_1[OF ne(1)] Cons_nth_drop_1[OF ne(2)] Cons_nth_drop_1[OF ne(3)] z
    by simp_all
  show ?thesis
  proof (cases observations)
    case None
    from stack_hidden_None[OF st[unfolded None]]
    have h: "hidden = [drop 1 (beliefs w), drop 1 (prior_states w), drop 1 (prior_means w),
                   drop 1 (prior_std_devs w)]" and d: "drop 1 (beliefs w) \<noteq> []"
      by blast+
    from d have "\<not> length (beliefs w) \<le> 1" by simp
    with L have "1 \<le> length actions" by (cases actions) (auto simp: lens_def)
    moreover have "beliefs w = prev_belief # hidden ! 0" "prior_states w = prev_state # hidden ! 1"
      "drop 1 (prior_means w) = hidden ! 2" "drop 1 (prior_std_devs w) = hidden ! 3"
      "length hidden = 4"
      using c by (simp_all add: h)
    ultimately show ?thesis using loop L R None by blast
  next
    case (Some obs)
    from stack_hidden_Some[OF st[unfolded Some]]
    have h: "hidden = [drop 1 (beliefs w), drop 1 (prior_states w), drop 1 (prior_means w),
                   drop 1 (prior_std_devs w), drop 1 (posterior_states w),
                   drop 1 (posterior_means w), drop 1 (posterior_std_devs w)]"
      and d: "drop 1 (beliefs w) \<noteq> []"
      by blast+
    from d have "\<not> length (beliefs w) \<le> 1" by simp
    with L have "1 \<le> length actions" by (cases actions) (auto simp: lens_def)
    moreover have "beliefs w = prev_belief # hidden ! 0" "prior_states w = prev_state # hidden ! 1"
      "drop 1 (prior_means w) = hidden ! 2" "drop 1 (prior_std_devs w) = hidden ! 3"
      "length hidden = 7" "posterior_states w = prev_state # hidden ! 4"
      "drop 1 (posterior_means w) = hidden ! 5" "drop 1 (posterior_std_devs w) = hidden ! 6"
      using c by (simp_all add: h)
    ultimately show ?thesis using loop L R Some by blast
  qed
qed

lemma drop1_nth: "drop 1 xs = ys \<Longrightarrow> i + 1 < length xs \<Longrightarrow> xs ! (i + 1) = ys ! i"
  by auto

text \<open>The step relation read off the returned sequences.\<close>

lemma forward_steps:
  assumes F: "forward m prev_state actions prev_belief observations nonterminals g = Inr (hidden, g')"
    and i: "i < length actions"
  shows "(\<exists>used. state_used (prev_state # hidden ! (if observations = None then 1 else 4))
                    nonterminals i = Inr used \<and>
            spec_belief m used (actions ! i) ((prev_belief # hidden ! 0) ! i) = Inr (hidden ! 0 ! i))"
    and "\<exists>k g1. spec_prior m (hidden ! 0 ! i) (\<lambda>n. g (n + k)) =
            Inr ((hidden ! 1 ! i, hidden ! 2 ! i, hidden ! 3 ! i), g1)"
    and "\<And>obs. observations = Some obs \<Longrightarrow> i < length obs \<and>
            (\<exists>k g1. spec_posterior m (hidden ! 0 ! i) (obs ! i) (\<lambda>n. g (n + k)) =
               Inr ((hidden ! 4 ! i, hidden ! 5 ! i, hidden ! 6 ! i), g1))"
proof -
  from forward_lists[OF F] obtain w where
    L: "lens (length actions + 1) w" and
    R: "\<forall>i<length actions. step_rel m actions observations nonterminals g w i" and
    b: "beliefs w = prev_belief # hidden ! 0" and
    p: "prior_states w = prev_state # hidden ! 1" and
    pm: "drop 1 (prior_means w) = hidden ! 2" and
    pd: "drop 1 (prior_std_devs w) = hidden ! 3" and
    q: "observations \<noteq> None \<longrightarrow>
                posterior_states w = prev_state # hidden ! 4 \<and>
                drop 1 (posterior_means w) = hidden ! 5 \<and>
                drop 1 (posterior_std_devs w) = hidden ! 6"
    by blast
  from R i have S: "step_rel m actions observations nonterminals g w i" by blast
  have n: "beliefs w ! (i + 1) = hidden ! 0 ! i" "prior_states w ! (i + 1) = hidden ! 1 ! i"
    by (simp_all add: b p)
  have n2: "prior_means w ! (i + 1) = hidden ! 2 ! i" "prior_std_devs w ! (i + 1) = hidden ! 3 ! i"
    by (rule drop1_nth[OF pm], use L i in \<open>simp add: lens_def\<close>)
       (rule drop1_nth[OF pd], use L i in \<open>simp add: lens_def\<close>)
  have sel: "(if observations = None then prior_states w else posterior_states w) =
      prev_state # hidden ! (if observations = None then 1 else 4)"
    using p q by simp
  from S obtain st where
    "select_state observations nonterminals i w = Inr st"
    "spec_belief m st (actions ! i) (beliefs w ! i) = Inr (beliefs w ! (i + 1))"
    unfolding step_rel_def by blast
  then show "\<exists>used. state_used (prev_state # hidden ! (if observations = None then 1 else 4))
                    nonterminals i = Inr used \<and>
            spec_belief m used (actions ! i) ((prev_belief # hidden ! 0) ! i) = Inr (hidden ! 0 ! i)"
    unfolding select_state_used sel n b[symmetric] by blast
  from S show "\<exists>k g1. spec_prior m (hidden ! 0 ! i) (\<lambda>n. g (n + k)) =
            Inr ((hidden ! 1 ! i, hidden ! 2 ! i, hidden ! 3 ! i), g1)"
    unfolding step_rel_def n n2 by blast
  fix obs assume o: "observations = Some obs"
  with q have q': "posterior_states w = prev_state # hidden ! 4"
    "drop 1 (posterior_means w) = hidden ! 5" "drop 1 (posterior_std_devs w) = hidden ! 6"
    by simp_all
  have n3: "posterior_states w ! (i + 1) = hidden ! 4 ! i"
    "posterior_means w ! (i + 1) = hidden ! 5 ! i"
    "posterior_std_devs w ! (i + 1) = hidden ! 6 ! i"
    by (simp add: q'(1))
       (rule drop1_nth[OF q'(2)], use L i in \<open>simp add: lens_def\<close>,
        rule drop1_nth[OF q'(3)], use L i in \<open>simp add: lens_def\<close>)
  from S o show "i < length obs \<and>
            (\<exists>k g1. spec_posterior m (hidden ! 0 ! i) (obs ! i) (\<lambda>n. g (n + k)) =
               Inr ((hidden ! 4 ! i, hidden ! 5 ! i, hidden ! 6 ! i), g1))"
    unfolding step_rel_def n n3 by blast
qed

lemmas toy_defs = toy_model_def forward_def forward_step_def select_state_def belief_step_def
  prior_step_def posterior_step_def init_lists_def stack_hidden_def stack_def index0_def
  cat1_def chunk2_def ncols_def tmap_def tmul_def tadd_def bcast_def bcast_row_def
  randn_like_def Let_def

lemma toy_forward_posterior:
  "forward toy_model [[1]] [[[1]], [[2]]] [[0]] (Some [[[1]], [[1]]]) (Some [[[0]]]) (\<lambda>n. 0) =
   Inr ([[[[2]], [[4]]], [[[2]], [[4]]], [[[2]], [[4]]],
         [[[softplus 0 + 1 / 10]], [[softplus 0 + 1 / 10]]],
         [[[3]], [[5]]], [[[3]], [[5]]],
         [[[softplus 0 + 1 / 10]], [[softplus 0 + 1 / 10]]]], \<lambda>k. 0)"
  by (simp add: toy_defs forward_loop.simps[of _ _ _ _ "Suc (Suc (Suc 0))"])

lemma toy_forward_prior:
  "forward toy_model [[1]] [[[1]], [[2]]] [[0]] None None (\<lambda>n. 1) =
   Inr ([[[[2]], [[61 / 10 + softplus 0]]],
         [[[21 / 10 + softplus 0]], [[2 * softplus 0 + 31 / 5]]],
         [[[2]], [[61 / 10 + softplus 0]]],
         [[[softplus 0 + 1 / 10]], [[softplus 0 + 1 / 10]]]], \<lambda>k. 1)"
  by (simp add: toy_defs forward_loop.simps[of _ _ _ _ "Suc (Suc (Suc 0))"])

text \<open>
  C1. For every step \<open>t\<close> in \<open>1..T-1\<close> (with \<open>T - 1\<close> the number of actions) the returned
  sequences satisfy the step equations of the specification. With \<open>belief[0]\<close> the given
  belief, \<open>belief[t]\<close> is the recurrent cell applied to the activated linear embedding of
  the state used at step \<open>t - 1\<close> concatenated with action \<open>t - 1\<close>, and to
  \<open>belief[t - 1]\<close>. The prior mean and raw standard deviation are the two halves of the
  second linear layer applied to the activated first layer of \<open>belief[t]\<close>, the standard
  deviation is softplus of the raw one plus the floor, and the state is the mean plus the
  standard deviation times noise drawn from the generator. With observations, the
  posterior is computed the same way from \<open>belief[t]\<close> concatenated with the embedding of
  step \<open>t\<close> (entry \<open>t - 1\<close> of the observation sequence), through its own layers.
\<close>

theorem forward_step_equations:
  assumes "forward m prev_state actions prev_belief observations nonterminals g = Inr (hidden, g')"
    and "1 \<le> t" and "t \<le> length actions"
  shows "(\<exists>used. state_used (prev_state # hidden ! (if observations = None then 1 else 4))
                    nonterminals (t - 1) = Inr used \<and>
            spec_belief m used (actions ! (t - 1)) ((prev_belief # hidden ! 0) ! (t - 1)) =
              Inr ((prev_belief # hidden ! 0) ! t)) \<and>
         (\<exists>k g1. spec_prior m ((prev_belief # hidden ! 0) ! t) (\<lambda>n. g (n + k)) =
            Inr ((hidden ! 1 ! (t - 1), hidden ! 2 ! (t - 1), hidden ! 3 ! (t - 1)), g1)) \<and>
         (\<forall>obs. observations = Some obs \<longrightarrow>
            (\<exists>k g1. spec_posterior m ((prev_belief # hidden ! 0) ! t) (obs ! (t - 1))
                       (\<lambda>n. g (n + k)) =
               Inr ((hidden ! 4 ! (t - 1), hidden ! 5 ! (t - 1), hidden ! 6 ! (t - 1)), g1)))"
proof -
  from assms(2,3) have i: "t - 1 < length actions" by simp
  from assms(2) have e: "(prev_belief # hidden ! 0) ! t = hidden ! 0 ! (t - 1)"
    by (cases t) simp_all
  show ?thesis
    unfolding e
    using forward_steps(1)[OF assms(1) i] forward_steps(2)[OF assms(1) i]
      forward_steps(3)[OF assms(1) i]
    by blast
qed

theorem forward_step_equations_witness:
  "\<exists>hidden g'.
     forward toy_model [[1]] [[[1]], [[2]]] [[0]] (Some [[[1]], [[1]]]) (Some [[[0]]]) (\<lambda>n. 0) =
       Inr (hidden, g') \<and> (1::nat) \<le> 2 \<and> (2::nat) \<le> length [[[1::real]], [[2]]] \<and>
     (\<exists>used. state_used ([[1]] # hidden ! 4) (Some [[[0]]]) 1 = Inr used \<and>
        spec_belief toy_model used [[2]] (hidden ! 0 ! 0) = Inr (hidden ! 0 ! 1)) \<and>
     (\<exists>k g1. spec_prior toy_model (hidden ! 0 ! 1) (\<lambda>n. 0) =
        Inr ((hidden ! 1 ! 1, hidden ! 2 ! 1, hidden ! 3 ! 1), g1)) \<and>
     (\<exists>k g1. spec_posterior toy_model (hidden ! 0 ! 1) [[1]] (\<lambda>n. 0) =
        Inr ((hidden ! 4 ! 1, hidden ! 5 ! 1, hidden ! 6 ! 1), g1))"
proof -
  have h2: "(1::nat) \<le> 2" by simp
  have h3: "(2::nat) \<le> length [[[1::real]], [[2]]]" by simp
  show ?thesis
    using forward_step_equations[OF toy_forward_posterior h2 h3] toy_forward_posterior
    by simp
qed

lemma less_4_cases: "j < (4::nat) \<Longrightarrow> j = 0 \<or> j = 1 \<or> j = 2 \<or> j = 3"
  by arith

lemma less_7_cases: "j < (7::nat) \<Longrightarrow> j = 0 \<or> j = 1 \<or> j = 2 \<or> j = 3 \<or> j = 4 \<or> j = 5 \<or> j = 6"
  by arith

lemma forward_lengths:
  assumes "forward m prev_state actions prev_belief observations nonterminals g = Inr (hidden, g')"
  shows "1 \<le> length actions \<and>
         length hidden = (if observations = None then 4 else 7) \<and>
         (\<forall>s\<in>set hidden. length s = length actions) \<and>
         (\<exists>w. forward_loop m actions observations nonterminals (length actions + 1) 0
                 (init_lists (length actions + 1) prev_state prev_belief, g) = Inr (w, g') \<and>
               beliefs w = prev_belief # hidden ! 0 \<and>
               prior_states w = prev_state # hidden ! 1 \<and>
               drop 1 (prior_means w) = hidden ! 2 \<and>
               drop 1 (prior_std_devs w) = hidden ! 3 \<and>
               (observations \<noteq> None \<longrightarrow>
                  posterior_states w = prev_state # hidden ! 4 \<and>
                  drop 1 (posterior_means w) = hidden ! 5 \<and>
                  drop 1 (posterior_std_devs w) = hidden ! 6))"
proof -
  from forward_lists[OF assms] obtain w where
    loop: "forward_loop m actions observations nonterminals (length actions + 1) 0
             (init_lists (length actions + 1) prev_state prev_belief, g) = Inr (w, g')" and
    L: "lens (length actions + 1) w" and n: "1 \<le> length actions" and
    b: "beliefs w = prev_belief # hidden ! 0" and
    p: "prior_states w = prev_state # hidden ! 1" and
    pm: "drop 1 (prior_means w) = hidden ! 2" and
    pd: "drop 1 (prior_std_devs w) = hidden ! 3" and
    h4: "observations = None \<longrightarrow> length hidden = 4" and
    q: "observations \<noteq> None \<longrightarrow> length hidden = 7 \<and>
                posterior_states w = prev_state # hidden ! 4 \<and>
                drop 1 (posterior_means w) = hidden ! 5 \<and>
                drop 1 (posterior_std_devs w) = hidden ! 6"
    by blast
  have l0: "length (hidden ! 0) = length actions" "length (hidden ! 1) = length actions"
    using L b p by (simp_all add: lens_def)
  have l2: "length (hidden ! 2) = length actions" "length (hidden ! 3) = length actions"
    using L by (simp_all add: lens_def pm[symmetric] pd[symmetric])
  have l4: "observations \<noteq> None \<Longrightarrow> length (hidden ! 4) = length actions \<and>
      length (hidden ! 5) = length actions \<and> length (hidden ! 6) = length actions"
  proof -
    assume o: "observations \<noteq> None"
    with q have q': "posterior_states w = prev_state # hidden ! 4"
      "drop 1 (posterior_means w) = hidden ! 5" "drop 1 (posterior_std_devs w) = hidden ! 6"
      by simp_all
    have "length (hidden ! 4) = length actions" using L q'(1) by (simp add: lens_def)
    moreover have "length (hidden ! 5) = length actions" "length (hidden ! 6) = length actions"
      using L by (simp_all add: lens_def q'(2)[symmetric] q'(3)[symmetric])
    ultimately show ?thesis by simp
  qed
  have len: "length hidden = (if observations = None then 4 else 7)" using h4 q by simp
  have all: "\<forall>s\<in>set hidden. length s = length actions"
  proof (cases "observations = None")
    case True
    then have "\<forall>j<length hidden. length (hidden ! j) = length actions"
      using len l0 l2 by (auto dest!: less_4_cases)
    then show ?thesis by (simp add: all_set_conv_all_nth)
  next
    case False
    then have "\<forall>j<length hidden. length (hidden ! j) = length actions"
      using len l0 l2 l4 by (auto dest!: less_7_cases)
    then show ?thesis by (simp add: all_set_conv_all_nth)
  qed
  show ?thesis using n len all loop b p pm pd q by blast
qed

text \<open>
  C4. The first recurrence step feeds the given initial state into the belief recurrence
  as it is, whatever the nonterminal mask. At a later loop index \<open>t\<close> with a mask given,
  the fed state is the selected state of step \<open>t\<close> times mask entry \<open>t - 1\<close>; when that
  entry is zero throughout, every component of the fed state is zero, whatever the value
  of the prior or posterior state.
\<close>

theorem forward_masking:
  assumes "forward m prev_state actions prev_belief observations nonterminals g = Inr (hidden, g')"
  shows "spec_belief m prev_state (actions ! 0) prev_belief = Inr (hidden ! 0 ! 0) \<and>
         (\<forall>nts t. nonterminals = Some nts \<and> 1 \<le> t \<and> t < length actions \<and>
                  all_zero (nts ! (t - 1)) \<longrightarrow>
            (\<exists>used. tmul (hidden ! (if observations = None then 1 else 4) ! (t - 1))
                        (nts ! (t - 1)) = Inr used \<and>
                     all_zero used \<and>
                     spec_belief m used (actions ! t) (hidden ! 0 ! (t - 1)) =
                       Inr (hidden ! 0 ! t)))"
proof (intro conjI allI impI)
  from forward_lists[OF assms] have "0 < length actions" by auto
  from forward_steps(1)[OF assms this]
  show "spec_belief m prev_state (actions ! 0) prev_belief = Inr (hidden ! 0 ! 0)"
    by (auto simp: state_used_def split: option.splits)
next
  fix nts t
  assume a: "nonterminals = Some nts \<and> 1 \<le> t \<and> t < length actions \<and> all_zero (nts ! (t - 1))"
  then have t: "t < length actions" "0 < t" by simp_all
  from forward_steps(1)[OF assms t(1)] obtain used where
    u: "state_used (prev_state # hidden ! (if observations = None then 1 else 4))
          nonterminals t = Inr used" and
    s: "spec_belief m used (actions ! t) ((prev_belief # hidden ! 0) ! t) = Inr (hidden ! 0 ! t)"
    by blast
  from t(2) have e: "\<And>x xs. (x # xs) ! t = xs ! (t - 1)" by (cases t) simp_all
  from u a t(2) have m: "t - 1 < length nts"
    "tmul (hidden ! (if observations = None then 1 else 4) ! (t - 1)) (nts ! (t - 1)) = Inr used"
    unfolding state_used_def e by (auto simp: ebind_eq_Inr index0_pred)
  from tmul_zero[OF m(2)] a have "all_zero used" by blast
  then show "\<exists>used. tmul (hidden ! (if observations = None then 1 else 4) ! (t - 1))
                        (nts ! (t - 1)) = Inr used \<and>
                     all_zero used \<and>
                     spec_belief m used (actions ! t) (hidden ! 0 ! (t - 1)) =
                       Inr (hidden ! 0 ! t)"
    using m(2) s unfolding e by blast
qed

theorem forward_masking_witness:
  "\<exists>hidden g'.
     forward toy_model [[1]] [[[1]], [[2]]] [[0]] (Some [[[1]], [[1]]]) (Some [[[0]]]) (\<lambda>n. 0) =
       Inr (hidden, g') \<and> all_zero ([[[0]]] ! 0) \<and> hidden ! 4 ! 0 = [[3]] \<and>
     spec_belief toy_model [[1]] [[1]] [[0]] = Inr (hidden ! 0 ! 0) \<and>
     (\<exists>used. tmul (hidden ! 4 ! 0) [[0]] = Inr used \<and> all_zero used \<and>
        spec_belief toy_model used [[2]] (hidden ! 0 ! 0) = Inr (hidden ! 0 ! 1))"
proof -
  have z: "all_zero ([[[0]]] ! 0)" by (simp add: all_zero_def)
  from forward_masking[OF toy_forward_posterior]
  have "\<forall>nts t. Some [[[0]]] = Some nts \<and> 1 \<le> t \<and> t < length [[[1::real]], [[2]]] \<and>
                  all_zero (nts ! (t - 1)) \<longrightarrow>
            (\<exists>used. tmul ([[[3]], [[5]]] ! (t - 1)) (nts ! (t - 1)) = Inr used \<and>
                     all_zero used \<and>
                     spec_belief toy_model used ([[[1]], [[2]]] ! t) ([[[2]], [[4]]] ! (t - 1)) =
                       Inr ([[[2]], [[4]]] ! t))"
    and f: "spec_belief toy_model [[1]] [[1]] [[0]] = Inr [[2]]"
    by simp_all
  from this(1)[rule_format, of "[[[0]]]" 1] z
  have "\<exists>used. tmul [[3]] [[0]] = Inr used \<and> all_zero used \<and>
          spec_belief toy_model used [[2]] [[2]] = Inr [[4]]"
    by simp
  then show ?thesis using toy_forward_posterior z f by simp
qed

lemma shaped_iff: "shaped b c x \<longleftrightarrow> length x = b \<and> (\<forall>r\<in>set x. length r = c)"
proof
  assume "shaped b c x"
  then have m: "map length x = replicate b c" by (simp add: shaped_def)
  then have "length x = b" by (metis length_map length_replicate)
  moreover have "\<forall>r\<in>set x. length r = c"
  proof
    fix r assume "r \<in> set x"
    then have "length r \<in> set (map length x)" by simp
    then show "length r = c" unfolding m by simp
  qed
  ultimately show "length x = b \<and> (\<forall>r\<in>set x. length r = c)" by simp
next
  assume "length x = b \<and> (\<forall>r\<in>set x. length r = c)"
  then show "shaped b c x"
    unfolding shaped_def by (auto intro!: nth_equalityI)
qed

lemma shaped_cat1:
  assumes "shaped b c x" "shaped b c' y"
  shows "\<exists>z. cat1 x y = Inr z \<and> shaped b (c + c') z"
  using assms by (auto simp: shaped_iff cat1_def set_zip)

lemma shaped_tmap: "shaped b c x \<Longrightarrow> shaped b c (tmap f x)"
  by (simp add: shaped_iff tmap_def)

lemma shaped_randn_like: "shaped b c x \<Longrightarrow> shaped b c (fst (randn_like x g))"
  by (simp add: shaped_def randn_like_def randn_rows_shape)

lemma ncols_shaped: "shaped b c x \<Longrightarrow> x \<noteq> [] \<Longrightarrow> ncols x = c"
  by (cases x) (auto simp: shaped_iff ncols_def)

lemma shaped_chunk2:
  assumes "shaped b (2 * s) x"
  shows "\<exists>mean raw. chunk2 x = Inr (mean, raw) \<and> shaped b s mean \<and> shaped b s raw"
proof (cases "x = []")
  case True
  with assms show ?thesis by (simp add: chunk2_def ncols_def shaped_iff)
next
  case False
  from ncols_shaped[OF assms False] have n: "ncols x = 2 * s" .
  have "(2 * s + 1) div 2 = s" by simp
  with n assms show ?thesis
    by (auto simp: chunk2_def Let_def shaped_iff)
qed

lemma bcast_row_same: "length r = length s \<Longrightarrow> bcast_row f r s = Inr (map2 f r s)"
  by (simp add: bcast_row_def)

lemma bcast_row_mask:
  "length s = 1 \<Longrightarrow> \<exists>y. bcast_row f r s = Inr y \<and> length y = length r"
  by (auto simp: bcast_row_def)

lemma collect_map2_ok:
  assumes "length a = length b"
    and "\<And>i. i < length a \<Longrightarrow> \<exists>y. h (a ! i) (b ! i) = Inr y \<and> length y = c"
  shows "\<exists>z. collect (map2 h a b) = Inr z \<and> shaped (length a) c z"
  using assms
proof (induction a b rule: list_induct2)
  case Nil
  then show ?case by (simp add: shaped_iff)
next
  case (Cons x xs y ys)
  from Cons.prems[of 0] obtain v where v: "h x y = Inr v" "length v = c" by auto
  have "\<And>i. i < length xs \<Longrightarrow> \<exists>y. h (xs ! i) (ys ! i) = Inr y \<and> length y = c"
    using Cons.prems[of "Suc i" for i] by auto
  from Cons.IH[OF this] obtain z where z: "collect (map2 h xs ys) = Inr z" "shaped (length xs) c z"
    by blast
  show ?case using v z by (auto simp: shaped_iff)
qed

lemma shaped_bcast_same:
  assumes "shaped b c x" "shaped b c y"
  shows "\<exists>z. bcast f x y = Inr z \<and> shaped b c z"
proof -
  from assms have l: "length x = b" "length y = b" by (simp_all add: shaped_iff)
  have "\<exists>z. collect (map2 (bcast_row f) x y) = Inr z \<and> shaped (length x) c z"
  proof (rule collect_map2_ok)
    show "length x = length y" using l by simp
    fix i assume "i < length x"
    then have "length (x ! i) = c" "length (y ! i) = c" using assms l by (simp_all add: shaped_iff)
    then show "\<exists>z. bcast_row f (x ! i) (y ! i) = Inr z \<and> length z = c"
      by (simp add: bcast_row_same)
  qed
  then show ?thesis using l by (simp add: bcast_def)
qed

lemma shaped_bcast_mask:
  assumes "shaped b c x" "shaped b 1 n"
  shows "\<exists>z. bcast f x n = Inr z \<and> shaped b c z"
proof -
  from assms have l: "length x = b" "length n = b" by (simp_all add: shaped_iff)
  have "\<exists>z. collect (map2 (bcast_row f) x n) = Inr z \<and> shaped (length x) c z"
  proof (rule collect_map2_ok)
    show "length x = length n" using l by simp
    fix i assume "i < length x"
    then have "length (x ! i) = c" "length (n ! i) = 1" using assms l by (simp_all add: shaped_iff)
    then show "\<exists>z. bcast_row f (x ! i) (n ! i) = Inr z \<and> length z = c"
      using bcast_row_mask[of "n ! i" f "x ! i"] by simp
  qed
  then show ?thesis using l by (simp add: bcast_def)
qed

lemma spec_gauss_ok:
  assumes "shaped b (2 * s) out"
  shows "\<exists>st mean std g'. spec_gauss lo out g = Inr ((st, mean, std), g') \<and>
           shaped b s st \<and> shaped b s mean \<and> shaped b s std"
proof -
  from shaped_chunk2[OF assms] obtain mean raw where
    c: "chunk2 out = Inr (mean, raw)" "shaped b s mean" "shaped b s raw"
    by blast
  let ?std = "tmap (\<lambda>x. softplus x + lo) raw"
  obtain noise g' where r: "randn_like mean g = (noise, g')" by (cases "randn_like mean g")
  have sn: "shaped b s noise" using shaped_randn_like[OF c(2), of g] r by simp
  have ss: "shaped b s ?std" using c(3) by (rule shaped_tmap)
  from shaped_bcast_same[OF ss sn] obtain sn' where
    m: "tmul ?std noise = Inr sn'" "shaped b s sn'"
    unfolding tmul_def by blast
  from shaped_bcast_same[OF c(2) m(2)] obtain st where
    a: "tadd mean sn' = Inr st" "shaped b s st"
    unfolding tadd_def by blast
  have "spec_gauss lo out g = Inr ((st, mean, ?std), g')"
    by (simp add: spec_gauss_def c(1) r m(1) a(1))
  then show ?thesis using a(2) c(2) ss by blast
qed

lemma module_shapeD:
  "module_shape f b c c' \<Longrightarrow> shaped b c x \<Longrightarrow> \<exists>y. f x = Inr y \<and> shaped b c' y"
  by (simp add: module_shape_def)

lemma conformableD:
  assumes "conformable m B S A H K E prev_state actions prev_belief observations nonterminals"
  shows "shaped B S prev_state" "shaped B H prev_belief" "\<forall>a\<in>set actions. shaped B A a"
    "\<And>obs. observations = Some obs \<Longrightarrow>
        length actions \<le> length obs \<and> (\<forall>ob\<in>set obs. shaped B E ob)"
    "\<And>nts. nonterminals = Some nts \<Longrightarrow>
        length actions \<le> length nts + 1 \<and> (\<forall>n\<in>set nts. shaped B 1 n)"
    "\<And>c x. shaped B c x \<Longrightarrow> shaped B c (act_fn m x)"
    "module_shape (fc_embed_state_action m) B (S + A) H"
    "\<And>x h. shaped B H x \<Longrightarrow> shaped B H h \<Longrightarrow> \<exists>y. rnn m x h = Inr y \<and> shaped B H y"
    "module_shape (fc_embed_belief_prior m) B H K"
    "module_shape (fc_state_prior m) B K (2 * S)"
    "module_shape (fc_embed_belief_posterior m) B (H + E) K"
    "module_shape (fc_state_posterior m) B K (2 * S)"
  using assms unfolding conformable_def by simp_all

lemma select_state_ok:
  assumes C: "conformable m B S A H K E prev_state actions prev_belief observations nonterminals"
    and t: "t < length actions"
    and sh: "shaped B S (prior_states w ! t)"
      "observations \<noteq> None \<longrightarrow> shaped B S (posterior_states w ! t)"
  shows "\<exists>st. select_state observations nonterminals t w = Inr st \<and> shaped B S st"
proof -
  let ?s = "if observations = None then prior_states w ! t else posterior_states w ! t"
  have s: "shaped B S ?s" using sh by simp
  show ?thesis
  proof (cases nonterminals)
    case None
    then show ?thesis using s by (simp add: select_state_def)
  next
    case (Some nts)
    show ?thesis
    proof (cases "t = 0")
      case True
      with s Some show ?thesis by (auto simp: select_state_def)
    next
      case False
      from conformableD(5)[OF C Some]
      have n: "length actions \<le> length nts + 1" "\<forall>n\<in>set nts. shaped B 1 n"
        by simp_all
      from False t n(1) have i: "t - 1 < length nts" by simp
      then have ix: "index0 nts (int t - 1) = Inr (nts ! (t - 1))"
        using False by (simp add: index0_pred)
      from i n(2) have "shaped B 1 (nts ! (t - 1))" by simp
      from shaped_bcast_mask[OF s this] obtain z where
        "tmul ?s (nts ! (t - 1)) = Inr z" "shaped B S z"
        unfolding tmul_def by blast
      then show ?thesis using Some False ix by (simp add: select_state_def)
    qed
  qed
qed

lemma spec_belief_ok:
  assumes C: "conformable m B S A H K E prev_state actions prev_belief observations nonterminals"
    and "shaped B S st" "shaped B A a" "shaped B H b"
  shows "\<exists>y. spec_belief m st a b = Inr y \<and> shaped B H y"
proof -
  from shaped_cat1[OF assms(2,3)] obtain c where c: "cat1 st a = Inr c" "shaped B (S + A) c"
    by blast
  from module_shapeD[OF conformableD(7)[OF C] c(2)]
  obtain h where h: "fc_embed_state_action m c = Inr h" "shaped B H h"
    by blast
  from conformableD(6)[OF C h(2)] have "shaped B H (act_fn m h)" .
  from conformableD(8)[OF C this assms(4)]
  obtain y where "rnn m (act_fn m h) b = Inr y" "shaped B H y"
    by blast
  then show ?thesis using c(1) h(1) by (simp add: spec_belief_def)
qed

lemma spec_prior_ok:
  assumes C: "conformable m B S A H K E prev_state actions prev_belief observations nonterminals"
    and "shaped B H b"
  shows "\<exists>st mean std g'. spec_prior m b g = Inr ((st, mean, std), g') \<and>
           shaped B S st \<and> shaped B S mean \<and> shaped B S std"
proof -
  from module_shapeD[OF conformableD(9)[OF C] assms(2)]
  obtain h where h: "fc_embed_belief_prior m b = Inr h" "shaped B K h"
    by blast
  from conformableD(6)[OF C h(2)] have "shaped B K (act_fn m h)" .
  from module_shapeD[OF conformableD(10)[OF C] this]
  obtain out where o: "fc_state_prior m (act_fn m h) = Inr out" "shaped B (2 * S) out"
    by blast
  from spec_gauss_ok[OF o(2), of "min_std_dev m" g] show ?thesis
    using h(1) o(1) by (simp add: spec_prior_def)
qed

lemma spec_posterior_ok:
  assumes C: "conformable m B S A H K E prev_state actions prev_belief observations nonterminals"
    and "shaped B H b" "shaped B E ob"
  shows "\<exists>st mean std g'. spec_posterior m b ob g = Inr ((st, mean, std), g') \<and>
           shaped B S st \<and> shaped B S mean \<and> shaped B S std"
proof -
  from shaped_cat1[OF assms(2,3)] obtain c where c: "cat1 b ob = Inr c" "shaped B (H + E) c"
    by blast
  from module_shapeD[OF conformableD(11)[OF C] c(2)]
  obtain h where h: "fc_embed_belief_posterior m c = Inr h" "shaped B K h"
    by blast
  from conformableD(6)[OF C h(2)] have "shaped B K (act_fn m h)" .
  from module_shapeD[OF conformableD(12)[OF C] this]
  obtain out where o: "fc_state_posterior m (act_fn m h) = Inr out" "shaped B (2 * S) out"
    by blast
  from spec_gauss_ok[OF o(2), of "min_std_dev m" g] show ?thesis
    using c(1) h(1) o(1) by (simp add: spec_posterior_def)
qed

lemma forward_step_ok:
  assumes C: "conformable m B S A H K E prev_state actions prev_belief observations nonterminals"
    and L: "lens T w" and t: "t + 1 < T" "t < length actions"
    and sh: "shaped B H (beliefs w ! t)" "shaped B S (prior_states w ! t)"
      "observations \<noteq> None \<longrightarrow> shaped B S (posterior_states w ! t)"
  shows "\<exists>w' g'. forward_step m actions observations nonterminals t (w, g) = Inr (w', g') \<and>
           shaped B H (beliefs w' ! (t + 1)) \<and> shaped B S (prior_states w' ! (t + 1)) \<and>
           shaped B S (prior_means w' ! (t + 1)) \<and> shaped B S (prior_std_devs w' ! (t + 1)) \<and>
           (observations \<noteq> None \<longrightarrow> shaped B S (posterior_states w' ! (t + 1)) \<and>
              shaped B S (posterior_means w' ! (t + 1)) \<and>
              shaped B S (posterior_std_devs w' ! (t + 1)))"
proof -
  from select_state_ok[OF C t(2) sh(2,3)] obtain st where
    st: "select_state observations nonterminals t w = Inr st" "shaped B S st"
    by blast
  have ia: "index0 actions (int t) = Inr (actions ! t)" using t(2) by (simp add: index0_nat)
  from conformableD(3)[OF C] t(2) have "shaped B A (actions ! t)" by simp
  from spec_belief_ok[OF C st(2) this sh(1)] obtain b where
    b: "spec_belief m st (actions ! t) (beliefs w ! t) = Inr b" "shaped B H b"
    by blast
  define w1 where "w1 = w\<lparr>beliefs := (beliefs w)[t + 1 := b]\<rparr>"
  have B1: "belief_step m actions t st w = Inr w1"
    by (simp add: belief_step_char ia b(1) w1_def)
  have L1: "lens T w1" using L by (simp add: w1_def lens_def)
  have b1: "beliefs w1 ! (t + 1) = b" using L t(1) by (simp add: w1_def lens_def)
  from spec_prior_ok[OF C b(2), of g] obtain s mean std g1 where
    p: "spec_prior m b g = Inr ((s, mean, std), g1)" and
    ps: "shaped B S s" "shaped B S mean" "shaped B S std"
    by blast
  define w2 where "w2 = w1\<lparr>prior_means := (prior_means w1)[t + 1 := mean],
               prior_std_devs := (prior_std_devs w1)[t + 1 := std],
               prior_states := (prior_states w1)[t + 1 := s]\<rparr>"
  have lp: "t + 1 < length (prior_means w1)" "t + 1 < length (prior_std_devs w1)"
    using L1 t(1) by (simp_all add: lens_def)
  have P1: "prior_step m t (w1, g) = Inr (w2, g1)"
    unfolding prior_step_char[OF lp] b1 by (simp add: p w2_def)
  have L2: "lens T w2" using L1 by (simp add: w2_def lens_def)
  have b2: "beliefs w2 ! (t + 1) = b" using b1 by (simp add: w2_def)
  have v2: "prior_states w2 ! (t + 1) = s" "prior_means w2 ! (t + 1) = mean"
    "prior_std_devs w2 ! (t + 1) = std"
    using L1 t(1) by (simp_all add: w2_def lens_def)
  show ?thesis
  proof (cases observations)
    case None
    have "forward_step m actions observations nonterminals t (w, g) = Inr (w2, g1)"
      using st(1) B1 P1 by (simp add: forward_step_def None)
    then show ?thesis using b2 v2 b(2) ps None by auto
  next
    case (Some obs)
    from conformableD(4)[OF C Some] t(2)
    have io: "index0 obs (int t) = Inr (obs ! t)" "shaped B E (obs ! t)"
      by (simp_all add: index0_nat)
    from spec_posterior_ok[OF C b(2) io(2), of g1] obtain s' mean' std' g2 where
      q: "spec_posterior m b (obs ! t) g1 = Inr ((s', mean', std'), g2)" and
      qs: "shaped B S s'" "shaped B S mean'" "shaped B S std'"
      by blast
    define w3 where "w3 = w2\<lparr>posterior_means := (posterior_means w2)[t + 1 := mean'],
               posterior_std_devs := (posterior_std_devs w2)[t + 1 := std'],
               posterior_states := (posterior_states w2)[t + 1 := s']\<rparr>"
    have lq: "t + 1 < length (posterior_means w2)" "t + 1 < length (posterior_std_devs w2)"
      using L2 t(1) by (simp_all add: lens_def)
    have Q1: "posterior_step m obs t (w2, g1) = Inr (w3, g2)"
      unfolding posterior_step_char[OF lq] b2 by (simp add: io(1) q w3_def)
    have F: "forward_step m actions observations nonterminals t (w, g) = Inr (w3, g2)"
      using st(1) B1 P1 Q1 by (simp add: forward_step_def Some)
    have v3: "beliefs w3 ! (t + 1) = b" "prior_states w3 ! (t + 1) = s"
      "prior_means w3 ! (t + 1) = mean" "prior_std_devs w3 ! (t + 1) = std"
      using b2 v2 by (simp_all add: w3_def)
    have v4: "posterior_states w3 ! (t + 1) = s'" "posterior_means w3 ! (t + 1) = mean'"
      "posterior_std_devs w3 ! (t + 1) = std'"
      using L2 t(1) by (simp_all add: w3_def lens_def)
    show ?thesis using F v3 v4 b(2) ps qs by auto
  qed
qed

lemma shapes_upto_step:
  assumes "shapes_upto B S H post t w" "same_upto t w w'"
    and "shaped B H (beliefs w' ! (t + 1))" "shaped B S (prior_states w' ! (t + 1))"
      "shaped B S (prior_means w' ! (t + 1))" "shaped B S (prior_std_devs w' ! (t + 1))"
      "post \<longrightarrow> shaped B S (posterior_states w' ! (t + 1)) \<and>
              shaped B S (posterior_means w' ! (t + 1)) \<and>
              shaped B S (posterior_std_devs w' ! (t + 1))"
  shows "shapes_upto B S H post (t + 1) w'"
proof -
  have e: "j \<le> t \<Longrightarrow> beliefs w' ! j = beliefs w ! j \<and> prior_states w' ! j = prior_states w ! j \<and>
        prior_means w' ! j = prior_means w ! j \<and> prior_std_devs w' ! j = prior_std_devs w ! j \<and>
        posterior_states w' ! j = posterior_states w ! j \<and>
        posterior_means w' ! j = posterior_means w ! j \<and>
        posterior_std_devs w' ! j = posterior_std_devs w ! j" for j
    using assms(2) by (simp add: same_upto_def)
  have c: "j \<le> t + 1 \<Longrightarrow> j \<le> t \<or> j = t + 1" for j by arith
  show ?thesis
    unfolding shapes_upto_def
  proof (intro conjI allI impI)
    fix j assume "j \<le> t + 1"
    with c consider "j \<le> t" | "j = t + 1" by blast
    then show "shaped B H (beliefs w' ! j)"
      using assms(1,3) e[of j] by cases (auto simp: shapes_upto_def)
  next
    fix j assume "j \<le> t + 1"
    with c consider "j \<le> t" | "j = t + 1" by blast
    then show "shaped B S (prior_states w' ! j)"
      using assms(1,4) e[of j] by cases (auto simp: shapes_upto_def)
  next
    fix j assume "j \<le> t + 1" post
    with c consider "j \<le> t" | "j = t + 1" by blast
    then show "shaped B S (posterior_states w' ! j)"
      using assms(1,7) \<open>post\<close> e[of j] by cases (auto simp: shapes_upto_def)
  next
    fix j assume "1 \<le> j \<and> j \<le> t + 1"
    with c consider "1 \<le> j \<and> j \<le> t" | "j = t + 1" by blast
    then show "shaped B S (prior_means w' ! j)"
      using assms(1,5) e[of j] by cases (auto simp: shapes_upto_def)
  next
    fix j assume "1 \<le> j \<and> j \<le> t + 1"
    with c consider "1 \<le> j \<and> j \<le> t" | "j = t + 1" by blast
    then show "shaped B S (prior_std_devs w' ! j)"
      using assms(1,6) e[of j] by cases (auto simp: shapes_upto_def)
  next
    fix j assume "1 \<le> j \<and> j \<le> t + 1" post
    with c consider "1 \<le> j \<and> j \<le> t" | "j = t + 1" by blast
    then show "shaped B S (posterior_means w' ! j)"
      using assms(1,7) \<open>post\<close> e[of j] by cases (auto simp: shapes_upto_def)
  next
    fix j assume "1 \<le> j \<and> j \<le> t + 1" post
    with c consider "1 \<le> j \<and> j \<le> t" | "j = t + 1" by blast
    then show "shaped B S (posterior_std_devs w' ! j)"
      using assms(1,7) \<open>post\<close> e[of j] by cases (auto simp: shapes_upto_def)
  qed
qed

lemma forward_loop_ok:
  assumes C: "conformable m B S A H K E prev_state actions prev_belief observations nonterminals"
    and T: "T = length actions + 1"
    and "lens T w" and "shapes_upto B S H (observations \<noteq> None) t w"
  shows "\<exists>w' g'. forward_loop m actions observations nonterminals T t (w, g) = Inr (w', g') \<and>
           lens T w' \<and> (t \<le> T - 1 \<longrightarrow> shapes_upto B S H (observations \<noteq> None) (T - 1) w')"
  using assms(3,4)
proof (induction "T - 1 - t" arbitrary: t w g)
  case 0
  then have n: "\<not> t < T - 1" by simp
  then have "forward_loop m actions observations nonterminals T t (w, g) = Inr (w, g)"
    by (simp add: forward_loop.simps[of _ _ _ _ T t])
  moreover have "t \<le> T - 1 \<Longrightarrow> t = T - 1" using n by simp
  ultimately show ?case using "0.prems" by auto
next
  case (Suc d)
  then have lt: "t < T - 1" by simp
  then have t: "t + 1 < T" "t < length actions" using T by simp_all
  have sh: "shaped B H (beliefs w ! t)" "shaped B S (prior_states w ! t)"
    "observations \<noteq> None \<longrightarrow> shaped B S (posterior_states w ! t)"
    using Suc.prems(2) by (simp_all add: shapes_upto_def)
  from forward_step_ok[OF C Suc.prems(1) t sh, of g] obtain w1 g1 where
    F: "forward_step m actions observations nonterminals t (w, g) = Inr (w1, g1)" and
    n: "shaped B H (beliefs w1 ! (t + 1))" "shaped B S (prior_states w1 ! (t + 1))"
       "shaped B S (prior_means w1 ! (t + 1))" "shaped B S (prior_std_devs w1 ! (t + 1))"
       "observations \<noteq> None \<longrightarrow> shaped B S (posterior_states w1 ! (t + 1)) \<and>
              shaped B S (posterior_means w1 ! (t + 1)) \<and>
              shaped B S (posterior_std_devs w1 ! (t + 1))"
    by blast
  have F0: "forward_step m actions observations nonterminals t (w, (\<lambda>n. g (n + 0))) = Inr (w1, g1)"
    using F by simp
  from forward_step_rel[OF Suc.prems(1) t(1) F0]
  have L1: "lens T w1" and U: "same_upto t w w1" by blast+
  have S1: "shapes_upto B S H (observations \<noteq> None) (t + 1) w1"
    by (rule shapes_upto_step[OF Suc.prems(2) U n])
  have d: "d = T - 1 - (t + 1)" using Suc.hyps(2) by simp
  from Suc.hyps(1)[OF d L1 S1, of g1] obtain w' g' where
    R: "forward_loop m actions observations nonterminals T (t + 1) (w1, g1) = Inr (w', g')"
      "lens T w'" "t + 1 \<le> T - 1 \<longrightarrow> shapes_upto B S H (observations \<noteq> None) (T - 1) w'"
    by blast
  have "forward_loop m actions observations nonterminals T t (w, g) = Inr (w', g')"
    using lt F R(1) by (simp add: forward_loop.simps[of _ _ _ _ T t])
  then show ?case using R(2,3) lt by auto
qed

lemma stack_ok: "ts \<noteq> [] \<Longrightarrow> \<forall>y\<in>set ts. shaped b c y \<Longrightarrow> stack ts = Inr ts"
  by (cases ts) (auto simp: stack_def shaped_def)

lemma drop1_all:
  assumes "length xs = n + 1" "\<forall>j. 1 \<le> j \<and> j \<le> n \<longrightarrow> P (xs ! j)"
  shows "\<forall>y\<in>set (drop 1 xs). P y"
proof
  fix y assume "y \<in> set (drop 1 xs)"
  then obtain i where i: "i < length (drop 1 xs)" "y = drop 1 xs ! i"
    by (auto simp: in_set_conv_nth)
  then have "i < n" using assms(1) by simp
  moreover have "y = xs ! (i + 1)" using i assms(1) by simp
  ultimately show "P y" using assms(2) by simp
qed

lemma shapes_upto_init:
  assumes "shaped B S prev_state" "shaped B H prev_belief" "0 < T"
  shows "shapes_upto B S H post 0 (init_lists T prev_state prev_belief)"
  using assms by (simp add: shapes_upto_def init_lists_0)

text \<open>Conformable arguments with at least one action: the call returns.\<close>

lemma forward_ok:
  assumes C: "conformable m B S A H K E prev_state actions prev_belief observations nonterminals"
    and n: "1 \<le> length actions"
  shows "\<exists>hidden g'. forward m prev_state actions prev_belief observations nonterminals g =
           Inr (hidden, g')"
proof -
  let ?T = "length actions + 1"
  let ?w0 = "init_lists ?T prev_state prev_belief"
  have S0: "shapes_upto B S H (observations \<noteq> None) 0 ?w0"
    by (rule shapes_upto_init[OF conformableD(1,2)[OF C]]) simp
  from forward_loop_ok[OF C refl lens_init S0, of g] obtain w g' where
    loop: "forward_loop m actions observations nonterminals ?T 0 (?w0, g) = Inr (w, g')" and
    L: "lens ?T w" and S: "shapes_upto B S H (observations \<noteq> None) (length actions) w"
    by auto
  from n have ane: "actions \<noteq> []" by (cases actions) simp_all
  have ne: "drop 1 (beliefs w) \<noteq> []" "drop 1 (prior_states w) \<noteq> []"
    "drop 1 (prior_means w) \<noteq> []" "drop 1 (prior_std_devs w) \<noteq> []"
    "drop 1 (posterior_states w) \<noteq> []" "drop 1 (posterior_means w) \<noteq> []"
    "drop 1 (posterior_std_devs w) \<noteq> []"
    using L ane by (simp_all add: lens_def)
  have len: "length (beliefs w) = length actions + 1" "length (prior_states w) = length actions + 1"
    "length (prior_means w) = length actions + 1" "length (prior_std_devs w) = length actions + 1"
    "length (posterior_states w) = length actions + 1"
    "length (posterior_means w) = length actions + 1"
    "length (posterior_std_devs w) = length actions + 1"
    using L by (simp_all add: lens_def)
  have s1: "stack (drop 1 (beliefs w)) = Inr (drop 1 (beliefs w))"
  proof (rule stack_ok[OF ne(1) drop1_all[OF len(1)]])
    show "\<forall>j. 1 \<le> j \<and> j \<le> length actions \<longrightarrow> shaped B H (beliefs w ! j)"
      using S by (simp add: shapes_upto_def)
  qed
  have s2: "stack (drop 1 (prior_states w)) = Inr (drop 1 (prior_states w))"
  proof (rule stack_ok[OF ne(2) drop1_all[OF len(2)]])
    show "\<forall>j. 1 \<le> j \<and> j \<le> length actions \<longrightarrow> shaped B S (prior_states w ! j)"
      using S by (simp add: shapes_upto_def)
  qed
  have s3: "stack (drop 1 (prior_means w)) = Inr (drop 1 (prior_means w))"
  proof (rule stack_ok[OF ne(3) drop1_all[OF len(3)]])
    show "\<forall>j. 1 \<le> j \<and> j \<le> length actions \<longrightarrow> shaped B S (prior_means w ! j)"
      using S by (simp add: shapes_upto_def)
  qed
  have s4: "stack (drop 1 (prior_std_devs w)) = Inr (drop 1 (prior_std_devs w))"
  proof (rule stack_ok[OF ne(4) drop1_all[OF len(4)]])
    show "\<forall>j. 1 \<le> j \<and> j \<le> length actions \<longrightarrow> shaped B S (prior_std_devs w ! j)"
      using S by (simp add: shapes_upto_def)
  qed
  have "\<exists>hidden. stack_hidden observations w = Inr hidden"
  proof (cases observations)
    case None
    with s1 s2 s3 s4 show ?thesis by (simp add: stack_hidden_def)
  next
    case (Some obs)
    then have S': "shapes_upto B S H True (length actions) w" using S by simp
    have s5: "stack (drop 1 (posterior_states w)) = Inr (drop 1 (posterior_states w))"
    proof (rule stack_ok[OF ne(5) drop1_all[OF len(5)]])
    show "\<forall>j. 1 \<le> j \<and> j \<le> length actions \<longrightarrow> shaped B S (posterior_states w ! j)"
      using S' by (simp add: shapes_upto_def)
  qed
    have s6: "stack (drop 1 (posterior_means w)) = Inr (drop 1 (posterior_means w))"
    proof (rule stack_ok[OF ne(6) drop1_all[OF len(6)]])
    show "\<forall>j. 1 \<le> j \<and> j \<le> length actions \<longrightarrow> shaped B S (posterior_means w ! j)"
      using S' by (simp add: shapes_upto_def)
  qed
    have s7: "stack (drop 1 (posterior_std_devs w)) = Inr (drop 1 (posterior_std_devs w))"
    proof (rule stack_ok[OF ne(7) drop1_all[OF len(7)]])
    show "\<forall>j. 1 \<le> j \<and> j \<le> length actions \<longrightarrow> shaped B S (posterior_std_devs w ! j)"
      using S' by (simp add: shapes_upto_def)
  qed
    from s1 s2 s3 s4 s5 s6 s7 show ?thesis by (simp add: stack_hidden_def Some)
  qed
  then show ?thesis using loop by (auto simp: forward_def Let_def)
qed

lemma forward_empty:
  "forward m prev_state [] prev_belief observations nonterminals g = Inl RuntimeError"
  by (simp add: forward_def forward_loop.simps[of _ _ _ _ "Suc 0" 0] stack_hidden_def
      init_lists_def stack_def)

lemma toy_conformable:
  "conformable toy_model 1 1 1 1 1 1 [[1]] [[[1]], [[2]]] [[0]] (Some [[[1]], [[1]]]) (Some [[[0]]])"
proof -
  have r: "shaped 1 1 (map2 (map2 (\<lambda>a b. a + b)) x h)" if "shaped 1 1 x" "shaped 1 1 h"
    for x h :: tensor
  proof -
    from that obtain a b where "x = [[a]]" "h = [[b]]"
      by (auto simp: shaped_def length_Suc_conv map_eq_Cons_conv)
    then show ?thesis by (simp add: shaped_def)
  qed
  have i: "shaped 1 1 [[1]]" "shaped 1 1 [[0]]" "\<forall>a\<in>set [[[1]], [[2]]]. shaped 1 1 a"
    by (simp_all add: shaped_def)
  have o: "\<forall>obs. Some [[[1]], [[1]]] = Some obs \<longrightarrow>
        length [[[1::real]], [[2]]] \<le> length obs \<and> (\<forall>ob\<in>set obs. shaped 1 1 ob)"
    by (auto simp: shaped_def)
  have n: "\<forall>nts. Some [[[0]]] = Some nts \<longrightarrow>
        length [[[1::real]], [[2]]] \<le> length nts + 1 \<and> (\<forall>n\<in>set nts. shaped 1 1 n)"
    by (auto simp: shaped_def)
  have a: "\<forall>c x. shaped 1 c x \<longrightarrow> shaped 1 c (act_fn toy_model x)"
    by (simp add: toy_model_def)
  have m1: "module_shape (fc_embed_state_action toy_model) 1 (1 + 1) 1"
    by (simp add: module_shape_def toy_model_def shaped_iff)
  have m2: "\<forall>x h. shaped 1 1 x \<and> shaped 1 1 h \<longrightarrow>
      (\<exists>y. rnn toy_model x h = Inr y \<and> shaped 1 1 y)"
    using r by (simp add: toy_model_def)
  have m3: "module_shape (fc_embed_belief_prior toy_model) 1 1 1"
    by (simp add: module_shape_def toy_model_def)
  have m4: "module_shape (fc_state_prior toy_model) 1 1 (2 * 1)"
    by (simp add: module_shape_def toy_model_def shaped_iff)
  have m5: "module_shape (fc_embed_belief_posterior toy_model) 1 (1 + 1) 1"
    by (simp add: module_shape_def toy_model_def shaped_iff)
  have m6: "module_shape (fc_state_posterior toy_model) 1 1 (2 * 1)"
    by (simp add: module_shape_def toy_model_def shaped_iff)
  show ?thesis
    unfolding conformable_def using i o n a m1 m2 m3 m4 m5 m6 by blast
qed

text \<open>
  C10. With an empty action sequence the loop body never runs and stacking the empty
  slices raises, so the call fails instead of returning empty sequences. With at least
  one action and conformable arguments the call returns.
\<close>

theorem forward_needs_actions:
  "forward m prev_state [] prev_belief observations nonterminals g = Inl RuntimeError \<and>
   (conformable m B S A H K E prev_state actions prev_belief observations nonterminals \<and>
    1 \<le> length actions \<longrightarrow>
      (\<exists>hidden g'. forward m prev_state actions prev_belief observations nonterminals g =
         Inr (hidden, g')))"
proof (intro conjI impI)
  show "forward m prev_state [] prev_belief observations nonterminals g = Inl RuntimeError"
    by (rule forward_empty)
next
  assume "conformable m B S A H K E prev_state actions prev_belief observations nonterminals \<and>
    1 \<le> length actions"
  then show "\<exists>hidden g'. forward m prev_state actions prev_belief observations nonterminals g =
         Inr (hidden, g')"
    using forward_ok by blast
qed

theorem forward_needs_actions_witness:
  "forward toy_model [[1]] [] [[0]] (Some [[[1]], [[1]]]) (Some [[[0]]]) (\<lambda>n. 0) =
     Inl RuntimeError \<and>
   conformable toy_model 1 1 1 1 1 1 [[1]] [[[1]], [[2]]] [[0]] (Some [[[1]], [[1]]])
     (Some [[[0]]]) \<and>
   1 \<le> length [[[1::real]], [[2]]] \<and>
   (\<exists>hidden g'. forward toy_model [[1]] [[[1]], [[2]]] [[0]] (Some [[[1]], [[1]]])
      (Some [[[0]]]) (\<lambda>n. 0) = Inr (hidden, g'))"
  using forward_needs_actions[of toy_model "[[1]]" "[[0]]" "Some [[[1]], [[1]]]" "Some [[[0]]]"
      "\<lambda>n. 0" 1 1 1 1 1 1 "[[[1]], [[2]]]"] toy_conformable
  by simp

text \<open>
  C3. Whenever \<open>forward\<close> returns, the action sequence has length \<open>L \<ge> 1\<close>, the result
  holds exactly 4 sequences without observations and exactly 7 with them, and each has
  length exactly \<open>L\<close>; the working lists of the loop are the given belief and state
  (index 0) followed by the returned sequences, so index 0 is left out of what is
  returned. For conformable arguments with \<open>L \<ge> 1\<close> the call does return such a result.
\<close>

theorem forward_output_lengths:
  "(forward m prev_state actions prev_belief observations nonterminals g = Inr (hidden, g') \<longrightarrow>
      1 \<le> length actions \<and>
      length hidden = (if observations = None then 4 else 7) \<and>
      (\<forall>s\<in>set hidden. length s = length actions) \<and>
      (\<exists>w. forward_loop m actions observations nonterminals (length actions + 1) 0
              (init_lists (length actions + 1) prev_state prev_belief, g) = Inr (w, g') \<and>
            beliefs w = prev_belief # hidden ! 0 \<and>
            prior_states w = prev_state # hidden ! 1 \<and>
            drop 1 (prior_means w) = hidden ! 2 \<and>
            drop 1 (prior_std_devs w) = hidden ! 3 \<and>
            (observations \<noteq> None \<longrightarrow>
               posterior_states w = prev_state # hidden ! 4 \<and>
               drop 1 (posterior_means w) = hidden ! 5 \<and>
               drop 1 (posterior_std_devs w) = hidden ! 6))) \<and>
   (conformable m B S A H K E prev_state actions prev_belief observations nonterminals \<and>
    1 \<le> length actions \<longrightarrow>
      (\<exists>out g''. forward m prev_state actions prev_belief observations nonterminals g =
           Inr (out, g'') \<and>
         length out = (if observations = None then 4 else 7) \<and>
         (\<forall>s\<in>set out. length s = length actions)))"
proof (rule conjI)
  show "forward m prev_state actions prev_belief observations nonterminals g = Inr (hidden, g') \<longrightarrow>
      1 \<le> length actions \<and>
      length hidden = (if observations = None then 4 else 7) \<and>
      (\<forall>s\<in>set hidden. length s = length actions) \<and>
      (\<exists>w. forward_loop m actions observations nonterminals (length actions + 1) 0
              (init_lists (length actions + 1) prev_state prev_belief, g) = Inr (w, g') \<and>
            beliefs w = prev_belief # hidden ! 0 \<and>
            prior_states w = prev_state # hidden ! 1 \<and>
            drop 1 (prior_means w) = hidden ! 2 \<and>
            drop 1 (prior_std_devs w) = hidden ! 3 \<and>
            (observations \<noteq> None \<longrightarrow>
               posterior_states w = prev_state # hidden ! 4 \<and>
               drop 1 (posterior_means w) = hidden ! 5 \<and>
               drop 1 (posterior_std_devs w) = hidden ! 6))"
    by (rule impI) (rule forward_lengths)
next
  show "conformable m B S A H K E prev_state actions prev_belief observations nonterminals \<and>
    1 \<le> length actions \<longrightarrow>
      (\<exists>out g''. forward m prev_state actions prev_belief observations nonterminals g =
           Inr (out, g'') \<and>
         length out = (if observations = None then 4 else 7) \<and>
         (\<forall>s\<in>set out. length s = length actions))"
  proof (rule impI)
    assume "conformable m B S A H K E prev_state actions prev_belief observations nonterminals \<and>
      1 \<le> length actions"
    with forward_ok obtain out g'' where
      F: "forward m prev_state actions prev_belief observations nonterminals g = Inr (out, g'')"
      by blast
    from forward_lengths[OF F] F
    show "\<exists>out g''. forward m prev_state actions prev_belief observations nonterminals g =
             Inr (out, g'') \<and>
           length out = (if observations = None then 4 else 7) \<and>
           (\<forall>s\<in>set out. length s = length actions)"
      by blast
  qed
qed

theorem forward_output_lengths_witness:
  "(\<exists>hidden g'.
     forward toy_model [[1]] [[[1]], [[2]]] [[0]] None None (\<lambda>n. 1) = Inr (hidden, g') \<and>
     length hidden = 4 \<and> (\<forall>s\<in>set hidden. length s = 2)) \<and>
   conformable toy_model 1 1 1 1 1 1 [[1]] [[[1]], [[2]]] [[0]] (Some [[[1]], [[1]]])
     (Some [[[0]]]) \<and>
   (\<exists>out g''. forward toy_model [[1]] [[[1]], [[2]]] [[0]] (Some [[[1]], [[1]]])
      (Some [[[0]]]) (\<lambda>n. 0) = Inr (out, g'') \<and>
      length out = 7 \<and> (\<forall>s\<in>set out. length s = 2))"
proof -
  have a: "\<exists>hidden g'.
     forward toy_model [[1]] [[[1]], [[2]]] [[0]] None None (\<lambda>n. 1) = Inr (hidden, g') \<and>
     length hidden = 4 \<and> (\<forall>s\<in>set hidden. length s = 2)"
    using forward_output_lengths[where m = toy_model and prev_state = "[[1]]"
        and actions = "[[[1]], [[2]]]" and prev_belief = "[[0]]" and observations = None
        and nonterminals = None and g = "\<lambda>n. 1" and g' = "\<lambda>k. 1"
        and hidden = "[[[[2]], [[61 / 10 + softplus 0]]],
         [[[21 / 10 + softplus 0]], [[2 * softplus 0 + 31 / 5]]],
         [[[2]], [[61 / 10 + softplus 0]]],
         [[[softplus 0 + 1 / 10]], [[softplus 0 + 1 / 10]]]]", THEN conjunct1]
      toy_forward_prior
    by simp
  have c: "conformable toy_model 1 1 1 1 1 1 [[1]] [[[1]], [[2]]] [[0]] (Some [[[1]], [[1]]])
     (Some [[[0]]]) \<and> 1 \<le> length [[[1::real]], [[2]]]"
    using toy_conformable by simp
  have "\<exists>out g''. forward toy_model [[1]] [[[1]], [[2]]] [[0]] (Some [[[1]], [[1]]])
      (Some [[[0]]]) (\<lambda>n. 0) = Inr (out, g'') \<and>
      length out = (if Some [[[1::real]], [[1]]] = None then 4 else 7) \<and>
      (\<forall>s\<in>set out. length s = length [[[1::real]], [[2]]])"
    by (rule forward_output_lengths[THEN conjunct2, THEN mp, OF c])
  then have b: "\<exists>out g''. forward toy_model [[1]] [[[1]], [[2]]] [[0]] (Some [[[1]], [[1]]])
      (Some [[[0]]]) (\<lambda>n. 0) = Inr (out, g'') \<and>
      length out = 7 \<and> (\<forall>s\<in>set out. length s = 2)"
    by (simp add: numeral_2_eq_2)
  from a b toy_conformable show ?thesis by blast
qed

lemma map2_fst_same: "length xs = length ys \<Longrightarrow> map2 (\<lambda>l s. l) xs ys = xs"
  by (induction xs ys rule: list_induct2) simp_all

lemma map2_snd_same: "length xs = length ys \<Longrightarrow> map2 (\<lambda>l s. s) xs ys = ys"
  by (induction xs ys rule: list_induct2) simp_all

lemma bcast_row_fst:
  assumes "bcast_row (\<lambda>l s. l) ra rb = Inr row"
  shows "set row \<subseteq> set ra"
proof -
  consider (eq) "length ra = length rb" | (b1) "length ra \<noteq> length rb" "length rb = 1"
    | (a1) "length ra \<noteq> length rb" "length rb \<noteq> 1" "length ra = 1"
    using assms by (auto simp: bcast_row_def split: if_splits)
  then show ?thesis
  proof cases
    case eq
    with assms show ?thesis by (simp add: bcast_row_def map2_fst_same)
  next
    case b1
    with assms show ?thesis by (auto simp: bcast_row_def)
  next
    case a1
    then have "hd ra \<in> set ra" by (cases ra) auto
    with a1 assms show ?thesis by (auto simp: bcast_row_def)
  qed
qed

lemma bcast_row_snd:
  assumes "bcast_row (\<lambda>l s. s) ra rb = Inr row"
  shows "set row \<subseteq> set rb"
proof -
  consider (eq) "length ra = length rb" | (b1) "length ra \<noteq> length rb" "length rb = 1"
    | (a1) "length ra \<noteq> length rb" "length rb \<noteq> 1" "length ra = 1"
    using assms by (auto simp: bcast_row_def split: if_splits)
  then show ?thesis
  proof cases
    case eq
    with assms show ?thesis by (simp add: bcast_row_def map2_snd_same)
  next
    case b1
    then have "hd rb \<in> set rb" by (cases rb) auto
    with b1 assms show ?thesis by (auto simp: bcast_row_def)
  next
    case a1
    with assms show ?thesis by (auto simp: bcast_row_def)
  qed
qed

lemma bcast_fst_elems:
  assumes "bcast (\<lambda>l s. l) a b = Inr r" "all_elems P a"
  shows "all_elems P r"
  unfolding all_elems_def
proof (intro ballI)
  fix row v assume "row \<in> set r" "v \<in> set row"
  from bcast_rows[OF assms(1) \<open>row \<in> set r\<close>] obtain ra rb where
    "ra \<in> set a" "bcast_row (\<lambda>l s. l) ra rb = Inr row"
    by blast
  then have "v \<in> set ra" using bcast_row_fst[of ra rb row] \<open>v \<in> set row\<close> by blast
  with \<open>ra \<in> set a\<close> assms(2) show "P v" by (simp add: all_elems_def)
qed

lemma bcast_snd_elems:
  assumes "bcast (\<lambda>l s. s) a b = Inr r" "all_elems P b"
  shows "all_elems P r"
  unfolding all_elems_def
proof (intro ballI)
  fix row v assume "row \<in> set r" "v \<in> set row"
  from bcast_rows[OF assms(1) \<open>row \<in> set r\<close>] obtain ra rb where
    "rb \<in> set b" "bcast_row (\<lambda>l s. s) ra rb = Inr row"
    by blast
  then have "v \<in> set rb" using bcast_row_snd[of ra rb row] \<open>v \<in> set row\<close> by blast
  with \<open>rb \<in> set b\<close> assms(2) show "P v" by (simp add: all_elems_def)
qed

lemma Normal_init_elems:
  assumes "Normal_init loc scale = Inr d"
  shows "\<exists>l s. d = Normal l s \<and> (\<forall>P. all_elems P loc \<longrightarrow> all_elems P l) \<and>
           (\<forall>P. all_elems P scale \<longrightarrow> all_elems P s)"
proof -
  from assms obtain l s where
    b: "bcast (\<lambda>l s. l) loc scale = Inr l" "bcast (\<lambda>l s. s) loc scale = Inr s" and
    d: "d = Normal l s"
    by (auto simp: Normal_init_def ebind_eq_Inr)
  have "\<forall>P. all_elems P loc \<longrightarrow> all_elems P l" using bcast_fst_elems[OF b(1)] by simp
  moreover have "\<forall>P. all_elems P scale \<longrightarrow> all_elems P s" using bcast_snd_elems[OF b(2)] by simp
  ultimately show ?thesis using d by simp
qed





lemma all_elems_tmap: "(\<And>v. P (f v)) \<Longrightarrow> all_elems P (tmap f x)"
  by (auto simp: all_elems_def tmap_def)

lemma action_dist_char:
  assumes "action_dist m belief state = Inr sd"
  shows "\<exists>hidden raw_mean raw_std loc scale.
           actor_hidden m belief state = Inr hidden \<and>
           chunk2 hidden = Inr (raw_mean, raw_std) \<and>
           Normal_init (tmap (\<lambda>x. mean_scale m * tanh (x / mean_scale m)) raw_mean)
             (tmap (\<lambda>x. softplus (x + ln (exp (init_std m) - 1)) + min_std m) raw_std) =
             Inr (Normal loc scale) \<and>
           sd = \<lparr>sd_dist = Independent (TransformedDistribution (Normal loc scale) [TanhTransform]) 1,
                 sd_samples = 100\<rparr>"
proof -
  from assms obtain hidden raw_mean raw_std d where
    h: "actor_hidden m belief state = Inr hidden" "chunk2 hidden = Inr (raw_mean, raw_std)" and
    n: "Normal_init (tmap (\<lambda>x. mean_scale m * tanh (x / mean_scale m)) raw_mean)
             (tmap (\<lambda>x. softplus (x + ln (exp (init_std m) - 1)) + min_std m) raw_std) = Inr d" and
    i: "ebind (Independent_init (TransformedDistribution d [TanhTransform]) 1)
          (\<lambda>d. Inr (SampleDist_init d None)) = Inr sd"
    by (auto simp: action_dist_def Let_def ebind_eq_Inr)
  from Normal_init_elems[OF n] obtain loc scale where d: "d = Normal loc scale" by blast
  from i have "sd = \<lparr>sd_dist = Independent (TransformedDistribution (Normal loc scale) [TanhTransform]) 1,
                 sd_samples = 100\<rparr>"
    by (simp add: d Independent_init_def SampleDist_init_def)
  with h n d show ?thesis by blast
qed

lemma action_dist_scale:
  assumes "action_dist m belief state = Inr sd"
  shows "\<exists>loc scale.
           sd_dist sd = Independent (TransformedDistribution (Normal loc scale) [TanhTransform]) 1 \<and>
           sd_samples sd = 100 \<and> all_elems (\<lambda>v. min_std m < v) scale"
proof -
  from action_dist_char[OF assms] obtain raw_mean raw_std loc scale where
    n: "Normal_init (tmap (\<lambda>x. mean_scale m * tanh (x / mean_scale m)) raw_mean)
             (tmap (\<lambda>x. softplus (x + ln (exp (init_std m) - 1)) + min_std m) raw_std) =
             Inr (Normal loc scale)" and
    sd: "sd = \<lparr>sd_dist = Independent (TransformedDistribution (Normal loc scale) [TanhTransform]) 1,
                 sd_samples = 100\<rparr>"
    by blast
  have "all_elems (\<lambda>v. min_std m < v)
          (tmap (\<lambda>x. softplus (x + ln (exp (init_std m) - 1)) + min_std m) raw_std)"
    by (rule all_elems_tmap) (simp add: softplus_pos)
  moreover from Normal_init_elems[OF n]
  have "\<forall>P. all_elems P
          (tmap (\<lambda>x. softplus (x + ln (exp (init_std m) - 1)) + min_std m) raw_std) \<longrightarrow>
        all_elems P scale"
    by simp
  ultimately have "all_elems (\<lambda>v. min_std m < v) scale" by simp
  then show ?thesis by (simp add: sd)
qed

lemma toy_action_dist:
  "action_dist toy_actor [[0]] [[0]] =
     Inr \<lparr>sd_dist = Independent (TransformedDistribution (Normal [[0]] [[toy_std]]) [TanhTransform]) 1,
          sd_samples = 100\<rparr>"
  by (simp add: action_dist_def actor_hidden_def toy_actor_def toy_std_def cat1_def chunk2_def
      ncols_def tmap_def Normal_init_def bcast_def bcast_row_def Independent_init_def
      SampleDist_init_def Let_def)




lemma forwarded_rsample: "forwarded ''rsample''"
  by (simp add: forwarded_def SampleDist_attributes_def)


lemma rsample_tanh_bounds:
  assumes "rsample (Independent (TransformedDistribution d [TanhTransform]) n) g = Inr (x, g')"
  shows "all_elems (\<lambda>v. - 1 < v \<and> v < 1) x"
proof -
  from assms obtain x0 where "x = tmap (transform_call TanhTransform) x0"
    by (auto simp: ebind_eq_Inr)
  then show ?thesis
    by (auto simp: all_elems_def tmap_def tanh_real_lt_1 tanh_real_gt_neg1)
qed

lemma rsample_n_all:
  assumes "\<And>g x g'. rsample d g = Inr (x, g') \<Longrightarrow> P x"
    and "rsample_n d n g = Inr (xs, g')"
  shows "length xs = n \<and> (\<forall>x\<in>set xs. P x)"
  using assms(2)
proof (induction n arbitrary: g xs)
  case 0
  then show ?case by simp
next
  case (Suc n)
  from Suc.prems obtain x g1 ys where
    r: "rsample d g = Inr (x, g1)" "rsample_n d n g1 = Inr (ys, g')" "xs = x # ys"
    by (auto simp: ebind_eq_Inr)
  from Suc.IH[OF r(2)] assms(1)[OF r(1)] r(3) show ?case by simp
qed

lemma map2_elems:
  assumes "all_elems P x" "all_elems Q y" "\<And>a b. P a \<Longrightarrow> Q b \<Longrightarrow> R (f a b)"
  shows "all_elems R (map2 (map2 f) x y)"
  unfolding all_elems_def
proof (intro ballI)
  fix row v assume "row \<in> set (map2 (map2 f) x y)" "v \<in> set row"
  then obtain r s where rs: "r \<in> set x" "s \<in> set y" "row = map2 f r s"
    by (auto dest: set_zip_leftD set_zip_rightD)
  with \<open>v \<in> set row\<close> obtain a b where "a \<in> set r" "b \<in> set s" "v = f a b"
    by (auto dest: set_zip_leftD set_zip_rightD)
  with rs assms show "R v" by (auto simp: all_elems_def)
qed

lemma sum0_bound:
  assumes "xs \<noteq> []" "\<forall>x\<in>set xs. all_elems (\<lambda>v. - 1 < v \<and> v < 1) x"
  shows "all_elems (\<lambda>v. - real (length xs) < v \<and> v < real (length xs)) (sum0 xs)"
  using assms
proof (induction xs rule: sum0.induct)
  case 1
  then show ?case by simp
next
  case (2 x)
  then show ?case by simp
next
  case (3 x y ys)
  have a: "all_elems (\<lambda>v. - 1 < v \<and> v < 1) x" using "3.prems"(2) by simp
  have b: "all_elems (\<lambda>v. - real (length (y # ys)) < v \<and> v < real (length (y # ys)))
             (sum0 (y # ys))"
    using "3.IH" "3.prems"(2) by simp
  have "all_elems (\<lambda>v. - real (length (x # y # ys)) < v \<and> v < real (length (x # y # ys)))
          (map2 (map2 (\<lambda>a b. a + b)) x (sum0 (y # ys)))"
    by (rule map2_elems[OF a b]) auto
  then show ?case by simp
qed

lemma mean0_bound:
  assumes "xs \<noteq> []" "\<forall>x\<in>set xs. all_elems (\<lambda>v. - 1 < v \<and> v < 1) x"
  shows "all_elems (\<lambda>v. - 1 < v \<and> v < 1) (mean0 xs)"
proof -
  have n: "0 < real (length xs)" using assms(1) by simp
  from sum0_bound[OF assms] show ?thesis
    unfolding mean0_def all_elems_def tmap_def using n
    by (auto simp: field_simps)
qed

lemma forward_action_range:
  assumes "ActorModel_forward m belief state deterministic with_logprob g =
             Inr ((action, logp_pi), g')"
  shows "all_elems (\<lambda>v. - 1 < v \<and> v < 1) action"
proof -
  from assms obtain sd g1 where
    d: "action_dist m belief state = Inr sd" and
    a: "(if deterministic then SampleDist_mean sd g else SampleDist_rsample sd g) =
          Inr (action, g1)"
    by (auto simp: ActorModel_forward_def ebind_eq_Inr)
  from action_dist_scale[OF d] obtain loc scale where
    sd: "sd_dist sd = Independent (TransformedDistribution (Normal loc scale) [TanhTransform]) 1"
      "sd_samples sd = 100"
    by blast
  show ?thesis
  proof (cases deterministic)
    case True
    with a obtain sample where
      s: "rsample_n (sd_dist sd) 100 g = Inr (sample, g1)" and m: "action = mean0 sample"
      by (auto simp: SampleDist_mean_def ebind_eq_Inr sd(2))
    have "length sample = 100 \<and> (\<forall>x\<in>set sample. all_elems (\<lambda>v. - 1 < v \<and> v < 1) x)"
      by (rule rsample_n_all[OF _ s]) (simp only: sd(1), rule rsample_tanh_bounds)
    then have "sample \<noteq> []" "\<forall>x\<in>set sample. all_elems (\<lambda>v. - 1 < v \<and> v < 1) x" by auto
    from mean0_bound[OF this] m show ?thesis by simp
  next
    case False
    with a have "rsample (sd_dist sd) g = Inr (action, g1)"
      by (simp add: SampleDist_rsample_def forwarded_rsample)
    then show ?thesis unfolding sd(1) by (rule rsample_tanh_bounds)
  qed
qed

lemma toy_rsample_zeros: "rsample toy_dist zeros = Inr ([[0]], zeros)"
  by (simp add: toy_dist_def zeros_def randn_like_def tmul_def tadd_def bcast_def bcast_row_def
      tmap_def)

lemma toy_rsample_ones: "rsample toy_dist ones = Inr ([[tanh toy_std]], ones)"
  by (simp add: toy_dist_def ones_def randn_like_def tmul_def tadd_def bcast_def bcast_row_def
      tmap_def)

lemma rsample_n_fixed:
  "rsample d g = Inr (x, g) \<Longrightarrow> rsample_n d n g = Inr (replicate n x, g)"
  by (induction n) simp_all

lemma sum0_replicate: "sum0 (replicate (Suc n) [[v]]) = [[real (Suc n) * v]]"
proof (induction n)
  case 0
  then show ?case by simp
next
  case (Suc n)
  have "sum0 (replicate (Suc (Suc n)) [[v]]) =
          map2 (map2 (\<lambda>a b. a + b)) [[v]] (sum0 (replicate (Suc n) [[v]]))"
    by simp
  also have "\<dots> = [[real (Suc (Suc n)) * v]]"
    unfolding Suc.IH by (simp add: algebra_simps)
  finally show ?case .
qed

lemma mean0_replicate: "0 < n \<Longrightarrow> mean0 (replicate n [[v]]) = [[v]]"
proof -
  assume "0 < n"
  then obtain k where n: "n = Suc k" by (cases n) auto
  show ?thesis
    unfolding n mean0_def sum0_replicate by (simp add: tmap_def)
qed

lemma toy_mean_zeros:
  "SampleDist_mean \<lparr>sd_dist = toy_dist, sd_samples = 100\<rparr> zeros = Inr ([[0]], zeros)"
  by (simp add: SampleDist_mean_def rsample_n_fixed[OF toy_rsample_zeros] mean0_replicate)

lemma toy_mean_ones:
  "SampleDist_mean \<lparr>sd_dist = toy_dist, sd_samples = 100\<rparr> ones = Inr ([[tanh toy_std]], ones)"
  by (simp add: SampleDist_mean_def rsample_n_fixed[OF toy_rsample_ones] mean0_replicate)

lemma toy_std_pos: "0 < toy_std"
proof -
  have "0 < softplus (ln (exp 5 - 1))" by (rule softplus_pos)
  then show ?thesis by (simp add: toy_std_def)
qed

lemma toy_action_dist_eq:
  "action_dist toy_actor [[0]] [[0]] = Inr \<lparr>sd_dist = toy_dist, sd_samples = 100\<rparr>"
  by (simp add: toy_action_dist toy_dist_def)

lemma toy_forward_zeros:
  "ActorModel_forward toy_actor [[0]] [[0]] True False zeros = Inr (([[0]], None), zeros)"
  by (simp add: ActorModel_forward_def toy_action_dist_eq toy_mean_zeros)

lemma toy_forward_ones:
  "ActorModel_forward toy_actor [[0]] [[0]] True False ones =
     Inr (([[tanh toy_std]], None), ones)"
  by (simp add: ActorModel_forward_def toy_action_dist_eq toy_mean_ones)

lemma toy_forward_sample:
  "ActorModel_forward toy_actor [[0]] [[0]] False False ones =
     Inr (([[tanh toy_std]], None), ones)"
  by (simp add: ActorModel_forward_def toy_action_dist_eq SampleDist_rsample_def
      forwarded_rsample toy_rsample_ones)

text \<open>
  C5, as stated, fails: the deterministic path averages samples drawn from the random
  generator. With the same parameters and the same belief and state, a call made when
  the generator hands out zeros returns the action 0, and a call made when it hands
  out ones returns \<open>tanh toy_std\<close>, which is not 0.
\<close>

theorem deterministic_action_counterexample:
  "ActorModel_forward toy_actor [[0]] [[0]] True False zeros = Inr (([[0]], None), zeros) \<and>
   ActorModel_forward toy_actor [[0]] [[0]] True False ones =
     Inr (([[tanh toy_std]], None), ones) \<and>
   [[tanh toy_std]] \<noteq> [[0::real]]"
  using toy_forward_zeros toy_forward_ones toy_std_pos by simp

lemma randn_rows_cong:
  "(\<forall>k<sum_list ns. g1 k = g2 k) \<Longrightarrow> fst (randn_rows ns g1) = fst (randn_rows ns g2)"
proof (induction ns arbitrary: g1 g2)
  case Nil
  then show ?case by simp
next
  case (Cons n ns)
  have h: "map g1 [0..<n] = map g2 [0..<n]" using Cons.prems by simp
  have "\<forall>k<sum_list ns. g1 (k + n) = g2 (k + n)" using Cons.prems by simp
  from Cons.IH[OF this] h show ?case by (simp add: split_beta)
qed

lemma rsample_rng: "rsample d g = Inr (x, g') \<Longrightarrow> g' = (\<lambda>k. g (k + draws d))"
proof (induction d arbitrary: x g')
  case (Normal loc scale)
  then have "g' = snd (randn_rows (map length loc) g)"
    by (auto simp: randn_like_def split_beta ebind_eq_Inr)
  then show ?case by (simp add: randn_rows_rng)
next
  case (TransformedDistribution d ts)
  then show ?case by (auto simp: ebind_eq_Inr)
next
  case (Independent d n)
  then show ?case by simp
qed

lemma rsample_cong:
  "(\<forall>k<draws d. g1 k = g2 k) \<Longrightarrow> rsample d g1 = Inr (x, g1') \<Longrightarrow>
     \<exists>g2'. rsample d g2 = Inr (x, g2')"
proof (induction d arbitrary: x g1')
  case (Normal loc scale)
  from Normal.prems(1) have "fst (randn_like loc g1) = fst (randn_like loc g2)"
    unfolding randn_like_def by (intro randn_rows_cong) simp
  with Normal.prems(2) show ?case by (auto simp: split_beta ebind_eq_Inr)
next
  case (TransformedDistribution d ts)
  from TransformedDistribution.prems(2) obtain y where
    y: "rsample d g1 = Inr (y, g1')" "x = fold (\<lambda>t. tmap (transform_call t)) ts y"
    by (auto simp: ebind_eq_Inr)
  from TransformedDistribution.IH[OF _ y(1)] TransformedDistribution.prems(1)
  obtain g2' where "rsample d g2 = Inr (y, g2')" by auto
  with y(2) show ?case by simp
next
  case (Independent d n)
  then show ?case by simp
qed

lemma rsample_n_cong:
  "(\<forall>k<n * draws d. g1 k = g2 k) \<Longrightarrow> rsample_n d n g1 = Inr (xs, g1') \<Longrightarrow>
     \<exists>g2'. rsample_n d n g2 = Inr (xs, g2')"
proof (induction n arbitrary: g1 g2 xs)
  case 0
  then show ?case by simp
next
  case (Suc n)
  from Suc.prems(2) obtain x h1 ys where
    r: "rsample d g1 = Inr (x, h1)" "rsample_n d n h1 = Inr (ys, g1')" "xs = x # ys"
    by (auto simp: ebind_eq_Inr)
  have "\<forall>k<draws d. g1 k = g2 k" using Suc.prems(1) by simp
  from rsample_cong[OF this r(1)] obtain h2 where r2: "rsample d g2 = Inr (x, h2)" by blast
  have h: "h1 = (\<lambda>k. g1 (k + draws d))" "h2 = (\<lambda>k. g2 (k + draws d))"
    using rsample_rng[OF r(1)] rsample_rng[OF r2] by simp_all
  have "\<forall>k<n * draws d. h1 k = h2 k" using Suc.prems(1) by (simp add: h)
  from Suc.IH[OF this r(2)] obtain g2' where "rsample_n d n h2 = Inr (ys, g2')" by blast
  with r2 r(3) show ?case by simp
qed

text \<open>
  C5, amended. With \<open>deterministic=True\<close> the action is the mean of 100 reparameterized
  samples drawn from the random generator. A second call with the same parameters, belief
  and state returns the same action whenever the generator hands it the same draws (the
  first \<open>100 * draws\<close> of them are the ones used).
\<close>

theorem deterministic_action:
  assumes "ActorModel_forward m belief state True with_logprob g = Inr ((action, logp_pi), g')"
  shows "\<exists>sd sample.
           action_dist m belief state = Inr sd \<and>
           rsample_n (sd_dist sd) 100 g = Inr (sample, g') \<and> length sample = 100 \<and>
           action = mean0 sample \<and>
           (\<forall>g2 r. (\<forall>k<100 * draws (sd_dist sd). g2 k = g k) \<and>
              ActorModel_forward m belief state True with_logprob g2 = Inr r \<longrightarrow>
              fst (fst r) = action)"
proof -
  from assms obtain sd g1 where
    d: "action_dist m belief state = Inr sd" and
    a: "SampleDist_mean sd g = Inr (action, g')"
    by (auto simp: ActorModel_forward_def ebind_eq_Inr split: if_splits)
  from action_dist_scale[OF d] have n: "sd_samples sd = 100" by blast
  from a obtain sample where
    s: "rsample_n (sd_dist sd) 100 g = Inr (sample, g')" and m: "action = mean0 sample"
    by (auto simp: SampleDist_mean_def ebind_eq_Inr n)
  have l: "length sample = 100"
    using rsample_n_all[of "sd_dist sd" "\<lambda>x. True", OF _ s] by simp
  have "fst (fst r) = action"
    if g2: "\<forall>k<100 * draws (sd_dist sd). g2 k = g k"
      and F: "ActorModel_forward m belief state True with_logprob g2 = Inr r" for g2 r
  proof -
    from g2 have "\<forall>k<100 * draws (sd_dist sd). g k = g2 k" by simp
    from rsample_n_cong[OF this s] obtain g2' where
      "rsample_n (sd_dist sd) 100 g2 = Inr (sample, g2')"
      by blast
    then have "SampleDist_mean sd g2 = Inr (action, g2')"
      by (simp add: SampleDist_mean_def n m)
    with F d show ?thesis
      by (auto simp: ActorModel_forward_def ebind_eq_Inr)
  qed
  with d s l m show ?thesis by blast
qed

theorem deterministic_action_witness:
  "ActorModel_forward toy_actor [[0]] [[0]] True False zeros = Inr (([[0]], None), zeros) \<and>
   (\<exists>sd sample.
      action_dist toy_actor [[0]] [[0]] = Inr sd \<and>
      rsample_n (sd_dist sd) 100 zeros = Inr (sample, zeros) \<and> length sample = 100 \<and>
      [[0]] = mean0 sample \<and>
      (\<forall>g2 r. (\<forall>k<100 * draws (sd_dist sd). g2 k = zeros k) \<and>
         ActorModel_forward toy_actor [[0]] [[0]] True False g2 = Inr r \<longrightarrow>
         fst (fst r) = [[0]]))"
  using deterministic_action[OF toy_forward_zeros] toy_forward_zeros by simp








lemma rne_eq:
  assumes "\<bar>r - of_int n\<bar> < 1 / 2"
  shows "rne r = n"
proof (cases "of_int n \<le> r")
  case True
  with assms have "\<lfloor>r\<rfloor> = n" by (intro floor_unique) (simp_all add: abs_less_iff)
  with assms True show ?thesis by (simp add: rne_def Let_def abs_less_iff)
next
  case False
  with assms have "\<lfloor>r\<rfloor> = n - 1" by (intro floor_unique) (simp_all add: abs_less_iff)
  with assms False show ?thesis by (simp add: rne_def Let_def abs_less_iff)
qed

lemma rne_of_int: "rne (of_int n) = n"
  by (rule rne_eq) simp

lemma rne_bounds: "\<lfloor>r\<rfloor> \<le> rne r" "rne r \<le> \<lfloor>r\<rfloor> + 1"
  by (simp_all add: rne_def Let_def)

lemma rne_mono:
  assumes "r \<le> s"
  shows "rne r \<le> rne s"
proof (cases "\<lfloor>r\<rfloor> = \<lfloor>s\<rfloor>")
  case True
  with assms show ?thesis by (simp add: rne_def Let_def)
next
  case False
  with assms have "\<lfloor>r\<rfloor> < \<lfloor>s\<rfloor>" using floor_mono[OF assms] by simp
  then have "rne r \<le> \<lfloor>s\<rfloor>" using rne_bounds(2)[of r] by simp
  with rne_bounds(1)[of s] show ?thesis by simp
qed

lemma ulp32_pos: "0 < ulp32 x"
  by (simp add: ulp32_def)

lemma expo32_mono:
  assumes "0 < x" "x \<le> y"
  shows "expo32 x \<le> expo32 y"
proof -
  from assms have "log 2 x \<le> log 2 y" by simp
  then have "\<lfloor>log 2 x\<rfloor> \<le> \<lfloor>log 2 y\<rfloor>" by (rule floor_mono)
  then show ?thesis by (simp add: expo32_def)
qed

lemma expo32_upper:
  assumes "0 < x"
  shows "x < 2 powr (of_int (expo32 x) + 1)"
proof -
  have "log 2 x < of_int \<lfloor>log 2 x\<rfloor> + 1" by linarith
  also have "\<dots> \<le> of_int (expo32 x) + 1" by (simp add: expo32_def)
  finally have "log 2 x < of_int (expo32 x) + 1" .
  with assms show ?thesis by (simp add: less_powr_iff)
qed

lemma expo32_lower:
  assumes "0 < x" "- 126 < expo32 x"
  shows "2 powr of_int (expo32 x) \<le> x"
proof -
  from assms(2) have "expo32 x = \<lfloor>log 2 x\<rfloor>" by (simp add: expo32_def max_def split: if_splits)
  then have "of_int (expo32 x) \<le> log 2 x" by simp
  with assms(1) show ?thesis by (simp add: powr_le_iff)
qed

lemma expo32_eq:
  assumes "2 powr of_int e \<le> x" "x < 2 powr (of_int e + 1)" "- 126 \<le> e"
  shows "expo32 x = e"
proof -
  have x: "0 < x" using assms(1) by (rule less_le_trans[rotated]) simp
  have "of_int e \<le> log 2 x" using assms(1) x by (simp add: powr_le_iff)
  moreover have "log 2 x < of_int e + 1" using assms(2) x by (simp add: less_powr_iff)
  ultimately have "\<lfloor>log 2 x\<rfloor> = e" by (intro floor_unique) simp_all
  with assms(3) show ?thesis by (simp add: expo32_def)
qed

lemma round_pos_eq:
  assumes "2 powr of_int e \<le> x" "x < 2 powr (of_int e + 1)" "- 126 \<le> e"
    and "\<bar>x / 2 powr (of_int e - 23) - of_int n\<bar> < 1 / 2"
  shows "round_pos x = of_int n * 2 powr (of_int e - 23)"
proof -
  have x: "0 < x" using assms(1) by (rule less_le_trans[rotated]) simp
  have e: "expo32 x = e" by (rule expo32_eq[OF assms(1-3)])
  have "rne (x / 2 powr (of_int e - 23)) = n" by (rule rne_eq[OF assms(4)])
  with x show ?thesis by (simp add: round_pos_def ulp32_def e)
qed

lemma round_pos_nonneg:
  assumes "0 \<le> x"
  shows "0 \<le> round_pos x"
proof (cases "x = 0")
  case True
  then show ?thesis by (simp add: round_pos_def)
next
  case False
  with assms have "0 \<le> x / ulp32 x" using ulp32_pos[of x] by simp
  then have "0 \<le> \<lfloor>x / ulp32 x\<rfloor>" by simp
  with rne_bounds(1)[of "x / ulp32 x"] have "0 \<le> rne (x / ulp32 x)" by linarith
  with False show ?thesis using ulp32_pos[of x] by (simp add: round_pos_def)
qed

lemma round_pos_le_pow:
  assumes "0 < x"
  shows "round_pos x \<le> 2 powr (of_int (expo32 x) + 1)"
proof -
  have u: "0 < ulp32 x" by (rule ulp32_pos)
  have p: "2 powr (of_int (expo32 x) + 1) = 2 ^ 24 * ulp32 x"
  proof -
    have "(2::real) powr (of_int (expo32 x) + 1) = 2 powr (24 + (of_int (expo32 x) - 23))"
      by (simp add: algebra_simps)
    also have "\<dots> = 2 powr 24 * 2 powr (of_int (expo32 x) - 23)" by (simp only: powr_add)
    finally show ?thesis by (simp add: ulp32_def)
  qed
  from expo32_upper[OF assms] have "x < 2 ^ 24 * ulp32 x" by (simp only: p)
  then have "x / ulp32 x \<le> of_int (2 ^ 24)" using u by (simp add: field_simps)
  then have "rne (x / ulp32 x) \<le> rne (of_int (2 ^ 24))" by (rule rne_mono)
  then have "rne (x / ulp32 x) \<le> 2 ^ 24" by (simp only: rne_of_int)
  then have "(of_int (rne (x / ulp32 x)) :: real) \<le> of_int (2 ^ 24)" by (simp only: of_int_le_iff)
  then have "of_int (rne (x / ulp32 x)) \<le> (2 ^ 24 :: real)" by simp
  then have "of_int (rne (x / ulp32 x)) * ulp32 x \<le> 2 ^ 24 * ulp32 x"
    using u by (simp only: mult_le_cancel_right_pos)
  with assms show ?thesis by (simp add: round_pos_def p)
qed

lemma round_pos_ge_pow:
  assumes "0 < x" "- 126 < expo32 x"
  shows "2 powr of_int (expo32 x) \<le> round_pos x"
proof -
  have u: "0 < ulp32 x" by (rule ulp32_pos)
  have p: "2 powr of_int (expo32 x) = 2 ^ 23 * ulp32 x"
  proof -
    have "(2::real) powr of_int (expo32 x) = 2 powr (23 + (of_int (expo32 x) - 23))" by simp
    also have "\<dots> = 2 powr 23 * 2 powr (of_int (expo32 x) - 23)" by (simp only: powr_add)
    finally show ?thesis by (simp add: ulp32_def)
  qed
  from expo32_lower[OF assms] have "2 ^ 23 * ulp32 x \<le> x" by (simp only: p)
  then have "of_int (2 ^ 23) \<le> x / ulp32 x" using u by (simp add: field_simps)
  then have "rne (of_int (2 ^ 23)) \<le> rne (x / ulp32 x)" by (rule rne_mono)
  then have "2 ^ 23 \<le> rne (x / ulp32 x)" by (simp only: rne_of_int)
  then have "(of_int (2 ^ 23) :: real) \<le> of_int (rne (x / ulp32 x))" by (simp only: of_int_le_iff)
  then have "(2 ^ 23 :: real) \<le> of_int (rne (x / ulp32 x))" by simp
  then have "2 ^ 23 * ulp32 x \<le> of_int (rne (x / ulp32 x)) * ulp32 x"
    using u by (simp only: mult_le_cancel_right_pos)
  with assms show ?thesis by (simp add: round_pos_def p)
qed

lemma round_pos_mono:
  assumes "0 \<le> x" "x \<le> y"
  shows "round_pos x \<le> round_pos y"
proof (cases "x = 0")
  case True
  with assms round_pos_nonneg[of y] show ?thesis by (simp add: round_pos_def)
next
  case False
  with assms have x: "0 < x" and y: "0 < y" by simp_all
  from expo32_mono[OF x assms(2)] have e: "expo32 x \<le> expo32 y" .
  show ?thesis
  proof (cases "expo32 x = expo32 y")
    case True
    then have u: "ulp32 x = ulp32 y" by (simp add: ulp32_def)
    have "x / ulp32 y \<le> y / ulp32 y" using assms(2) ulp32_pos[of y] by (simp add: field_simps)
    then have "rne (x / ulp32 y) \<le> rne (y / ulp32 y)" by (rule rne_mono)
    then have "(of_int (rne (x / ulp32 y)) :: real) \<le> of_int (rne (y / ulp32 y))" by linarith
    then have "of_int (rne (x / ulp32 y)) * ulp32 y \<le> of_int (rne (y / ulp32 y)) * ulp32 y"
      using ulp32_pos[of y] by (simp only: mult_le_cancel_right_pos)
    with x y show ?thesis by (simp add: round_pos_def u)
  next
    case False
    with e have l: "expo32 x + 1 \<le> expo32 y" by simp
    have "- 126 \<le> expo32 x" by (simp add: expo32_def)
    with l have m: "- 126 < expo32 y" by simp
    have "round_pos x \<le> 2 powr (of_int (expo32 x) + 1)" by (rule round_pos_le_pow[OF x])
    also have "\<dots> \<le> 2 powr of_int (expo32 y)"
    proof -
      from l have "(of_int (expo32 x) + 1 :: real) \<le> of_int (expo32 y)" by linarith
      then show ?thesis by simp
    qed
    also have "\<dots> \<le> round_pos y" by (rule round_pos_ge_pow[OF y m])
    finally show ?thesis .
  qed
qed

lemma round32_mono:
  assumes "x \<le> y"
  shows "round32 x \<le> round32 y"
proof (cases "x < 0")
  case True
  note xn = True
  show ?thesis
  proof (cases "y < 0")
    case True
    from assms True have "round_pos (- y) \<le> round_pos (- x)" by (intro round_pos_mono) simp_all
    with xn True show ?thesis by (simp add: round32_def)
  next
    case False
    from xn have "0 \<le> round_pos (- x)" by (intro round_pos_nonneg) simp
    moreover from False have "0 \<le> round_pos y" by (intro round_pos_nonneg) simp
    ultimately show ?thesis using xn False by (simp add: round32_def)
  qed
next
  case False
  with assms have "round_pos x \<le> round_pos y" by (intro round_pos_mono) simp_all
  with False assms show ?thesis by (simp add: round32_def)
qed


lemma round32_minus: "round32 (- x) = - round32 x"
  by (simp add: round32_def round_pos_def)

lemma round32_1: "round32 1 = 1"
proof -
  have "round_pos 1 = of_int (2 ^ 23) * 2 powr (of_int 0 - 23)"
    by (rule round_pos_eq) (simp_all add: powr_minus_divide)
  then show ?thesis by (simp add: round32_def powr_minus_divide)
qed

lemma round32_pos_eq:
  assumes "2 powr of_int e \<le> x" "x < 2 powr (of_int e + 1)" "- 126 \<le> e"
    and "\<bar>x / 2 powr (of_int e - 23) - of_int n\<bar> < 1 / 2"
  shows "round32 x = of_int n * 2 powr (of_int e - 23)"
proof -
  have "0 < x" using assms(1) by (rule less_le_trans[rotated]) simp
  then show ?thesis by (simp add: round32_def round_pos_eq[OF assms])
qed


lemma round32_10: "round32 10 = 10"
proof -
  have "round32 10 = of_int (5 * 2 ^ 21) * 2 powr (of_int 3 - 23)"
    by (rule round32_pos_eq) (simp_all add: powr_minus_divide)
  then show ?thesis by (simp add: powr_minus_divide)
qed




lemma exp_1_ge: "5 / 2 \<le> exp (1::real)"
  using exp_lower_Taylor_quadratic[of "1::real"] by simp

lemma exp_20_ge_pow: "(2::real) ^ 26 < exp 20"
proof -
  have "(2::real) ^ 26 < (5 / 2) ^ 20" by (simp add: power_divide)
  also have "\<dots> \<le> exp (1::real) ^ 20" using exp_1_ge by (rule power_mono) simp
  also have "exp (1::real) ^ 20 = exp 20" by (simp flip: exp_of_nat_mult)
  finally show ?thesis .
qed



lemma tanh32_10: "tanh32 10 = 1"
proof -
  define u :: real where "u = exp (- 20)"
  have u0: "0 < u" by (simp add: u_def)
  have "u = 1 / exp 20" by (simp add: u_def exp_minus field_simps)
  also have "\<dots> < 1 / 2 ^ 26" using exp_20_ge_pow by (simp add: field_simps)
  finally have u1: "u < 1 / 2 ^ 26" .
  have t: "tanh (10::real) = (1 - u) / (1 + u)"
    using tanh_real_altdef[of 10] by (simp add: u_def)
  have "1 - tanh (10::real) = 2 * u / (1 + u)" unfolding t using u0 by (simp add: field_simps)
  also have "\<dots> \<le> 2 * u" using u0 by (simp add: field_simps)
  also have "\<dots> < 1 / 2 ^ 25" using u1 by simp
  finally have d: "1 - tanh (10::real) < 1 / 2 ^ 25" .
  have l: "tanh (10::real) < 1" by (rule tanh_real_lt_1)
  have "round32 (tanh 10) = of_int (2 ^ 24) * 2 powr (of_int (- 1) - 23)"
  proof (rule round32_pos_eq)
    show "2 powr of_int (- 1) \<le> tanh (10::real)" using d by (simp add: powr_minus_divide)
    show "tanh (10::real) < 2 powr (of_int (- 1) + 1)" using l by simp
    show "- 126 \<le> (- 1 :: int)" by simp
    show "\<bar>tanh (10::real) / 2 powr (of_int (- 1) - 23) - of_int (2 ^ 24)\<bar> < 1 / 2"
      using d l by (simp add: powr_minus_divide abs_less_iff)
  qed
  then show ?thesis by (simp add: tanh32_def powr_minus_divide)
qed

lemma tanh32_bounds: "- 1 \<le> tanh32 x" "tanh32 x \<le> 1"
proof -
  have "tanh x \<le> 1" using tanh_real_lt_1[of x] by simp
  then have "round32 (tanh x) \<le> round32 1" by (rule round32_mono)
  then show "tanh32 x \<le> 1" by (simp add: tanh32_def round32_1)
  have "- 1 \<le> tanh x" using tanh_real_gt_neg1[of x] by simp
  then have "round32 (- 1) \<le> round32 (tanh x)" by (rule round32_mono)
  then show "- 1 \<le> tanh32 x" by (simp add: tanh32_def round32_1 round32_minus)
qed





lemma all_elems_weaken: "all_elems P x \<Longrightarrow> (\<And>v. P v \<Longrightarrow> Q v) \<Longrightarrow> all_elems Q x"
  by (simp add: all_elems_def)




text \<open>
  C6, as stated, fails on the sampling path for the numbers the program computes: for a
  component with mean 0, standard deviation 5 and noise 2 the sample before the transform
  is 10, and \<open>tanh 10\<close> is nearer to 1 than to the binary32 number below 1, so the
  action is 1 itself.
\<close>

theorem action_bounds_counterexample: "sample32 0 5 2 = 1"
  by (simp add: sample32_def add32_def mul32_def round32_10 tanh32_10)

text \<open>
  C6, amended. Every action that \<open>ActorModel.forward\<close> returns has all its components
  between -1 and 1, the ends included, on the deterministic path (the mean of the drawn
  samples) and on the sampling path alike, whatever \<open>mean_scale\<close> is. In single
  precision a sample \<open>tanh(loc + eps * scale)\<close> stays between -1 and 1 and can be
  equal to either.
\<close>

theorem action_bounds:
  assumes "ActorModel_forward m belief state deterministic with_logprob g =
             Inr ((action, logp_pi), g')"
  shows "all_elems (\<lambda>v. - 1 \<le> v \<and> v \<le> 1) action \<and>
         - 1 \<le> sample32 loc scale eps \<and> sample32 loc scale eps \<le> 1"
proof -
  from forward_action_range[OF assms]
  have "all_elems (\<lambda>v. - 1 \<le> v \<and> v \<le> 1) action"
    by (rule all_elems_weaken) simp
  then show ?thesis by (simp add: sample32_def tanh32_bounds)
qed

theorem action_bounds_witness:
  "ActorModel_forward toy_actor [[0]] [[0]] True False ones =
     Inr (([[tanh toy_std]], None), ones) \<and>
   ActorModel_forward toy_actor [[0]] [[0]] False False ones =
     Inr (([[tanh toy_std]], None), ones) \<and>
   all_elems (\<lambda>v. - 1 \<le> v \<and> v \<le> 1) [[tanh toy_std]] \<and>
   - 1 \<le> sample32 0 5 2 \<and> sample32 0 5 2 \<le> 1"
  using action_bounds[OF toy_forward_ones, of 0 5 2] action_bounds[OF toy_forward_sample, of 0 5 2]
    toy_forward_ones toy_forward_sample
  by simp































end
